theory Spec2Isabelle
  imports Main "HOL-Library.Word"
begin

section \<open>Text, template nodes and failures\<close>

text \<open>
  A JavaScript string is a sequence of 16-bit code units. \<open>String.fromCharCode\<close>
  truncates its argument to 16 bits and \<open>charCodeAt\<close> reads the unit back.
\<close>

type_synonym jschar = "16 word"
type_synonym jsstring = "jschar list"

definition fromCharCode :: "nat \<Rightarrow> jschar" where
  "fromCharCode n = of_nat n"

definition charCodeAt0 :: "jschar \<Rightarrow> nat" where
  "charCodeAt0 c = unat c"

text \<open>An ASCII literal of the source, as code units.\<close>

definition js :: "string \<Rightarrow> jsstring" where
  "js s = map (\<lambda>c. of_nat (of_char c)) s"

text \<open>
  Every \<open>throw new Error(...)\<close> of \<open>compileCssString\<close> and \<open>transformTemplate\<close>;
  \<open>TypeError\<close> stands for reading a property of \<open>undefined\<close>.
\<close>

datatype error =
    UnknownTemplateNode
  | UnexpectedKeyframeCompilation
  | FailedToParseCssRules
  | ComponentReferencesInKeyframes
  | UnexpectedKeyframesCount
  | Unexpected
  | Unexpected1
  | Unexpected2
  | TypeError

fun message :: "error \<Rightarrow> string" where
  "message UnknownTemplateNode = ''UNKNOWN TEMPLATE NODE''"
| "message UnexpectedKeyframeCompilation = ''Unexpected keyframe compilation''"
| "message FailedToParseCssRules = ''Failed to parse css rules''"
| "message ComponentReferencesInKeyframes = ''Did not expect component references in keyframes''"
| "message UnexpectedKeyframesCount = ''Unexpected keyframes count''"
| "message Unexpected = ''Unexpected!''"
| "message Unexpected1 = ''Unexpected 1!''"
| "message Unexpected2 = ''Unexpected 2!''"
| "message TypeError = ''TypeError''"

text \<open>
  The syntax nodes \<open>traverseExtract\<close> looks at, by \<open>kind\<close>; \<open>'e\<close> is the opaque
  expression node of a template span, \<open>OtherKind\<close> any other node.
\<close>

datatype 'e tnode =
    NoSubstitutionTemplateLiteral jsstring
  | TemplateHead jsstring
  | TemplateMiddle jsstring
  | TemplateTail jsstring
  | TemplateExpression "'e tnode" "'e tnode list"
  | TemplateSpan 'e "'e tnode"
  | OtherKind

text \<open>An element of the \<open>parts\<close> array: \<open>string | ts.Node\<close>.\<close>

datatype 'e part = Str jsstring | Node 'e

section \<open>Extraction of the parts array\<close>

text \<open>
  \<open>traverseExtract\<close> pushes onto the shared \<open>parts\<close> array; the array is passed
  in and returned. \<open>traverseExtractAll\<close> is \<open>t.templateSpans.map(traverseExtract)\<close>.
\<close>

fun traverseExtract :: "'e tnode \<Rightarrow> 'e part list \<Rightarrow> error + 'e part list"
  and traverseExtractAll :: "'e tnode list \<Rightarrow> 'e part list \<Rightarrow> error + 'e part list"
where
  "traverseExtract (NoSubstitutionTemplateLiteral s) parts = Inr (parts @ [Str s])"
| "traverseExtract (TemplateHead s) parts = Inr (parts @ [Str s])"
| "traverseExtract (TemplateMiddle s) parts = Inr (parts @ [Str s])"
| "traverseExtract (TemplateTail s) parts = Inr (parts @ [Str s])"
| "traverseExtract (TemplateExpression h spans) parts =
     (case traverseExtract h parts of
        Inl e \<Rightarrow> Inl e
      | Inr parts' \<Rightarrow> traverseExtractAll spans parts')"
| "traverseExtract (TemplateSpan e lit) parts = traverseExtract lit (parts @ [Node e])"
| "traverseExtract OtherKind parts = Inl UnknownTemplateNode"
| "traverseExtractAll [] parts = Inr parts"
| "traverseExtractAll (t # ts) parts =
     (case traverseExtract t parts of
        Inl e \<Rightarrow> Inl e
      | Inr parts' \<Rightarrow> traverseExtractAll ts parts')"

text \<open>
  The declared type of the argument, \<open>ts.TemplateLiteral\<close>: a literal without
  substitutions, or a head followed by spans whose literal is a middle or a tail.
\<close>

fun isSpanLiteral :: "'e tnode \<Rightarrow> bool" where
  "isSpanLiteral (TemplateMiddle s) = True"
| "isSpanLiteral (TemplateTail s) = True"
| "isSpanLiteral _ = False"

fun isTemplateSpan :: "'e tnode \<Rightarrow> bool" where
  "isTemplateSpan (TemplateSpan e lit) = isSpanLiteral lit"
| "isTemplateSpan _ = False"

fun isTemplateLiteral :: "'e tnode \<Rightarrow> bool" where
  "isTemplateLiteral (NoSubstitutionTemplateLiteral s) = True"
| "isTemplateLiteral (TemplateExpression (TemplateHead s) spans) = list_all isTemplateSpan spans"
| "isTemplateLiteral _ = False"

section \<open>Marker codec\<close>

definition START_CODE :: nat where
  "START_CODE = 230"

text \<open>\<open>CLASS_MARKER = String.fromCharCode(NEXT_CODE++)\<close> with \<open>NEXT_CODE = START_CODE\<close>.\<close>

definition CLASS_MARKER :: jschar where
  "CLASS_MARKER = fromCharCode START_CODE"

text \<open>
  \<open>parts.map(...)\<close> with the counter \<open>NEXT_CODE\<close> threaded through: the strings
  that \<open>join('')\<close> then concatenates.
\<close>

fun encodeParts :: "nat \<Rightarrow> 'e part list \<Rightarrow> jsstring list" where
  "encodeParts next [] = []"
| "encodeParts next (Str s # ps) = s # encodeParts next ps"
| "encodeParts next (Node e # ps) = [fromCharCode next] # encodeParts (next + 1) ps"

definition combined :: "'e part list \<Rightarrow> jsstring" where
  "combined parts = concat (encodeParts (START_CODE + 1) parts)"

text \<open>\<open>exprParts\<close>: the nodes of \<open>parts\<close>, in order.\<close>

fun exprParts :: "'e part list \<Rightarrow> 'e list" where
  "exprParts [] = []"
| "exprParts (Str s # ps) = exprParts ps"
| "exprParts (Node e # ps) = e # exprParts ps"

text \<open>
  \<open>exprParts[c.charCodeAt(0) - START_CODE - 1]\<close>; an index outside the array reads
  \<open>undefined\<close>, here \<open>None\<close>.
\<close>

definition exprFromChar :: "'e list \<Rightarrow> jschar \<Rightarrow> 'e option" where
  "exprFromChar eparts c =
     (let k = int (charCodeAt0 c) - int START_CODE - 1
      in if 0 \<le> k \<and> nat k < length eparts then Some (eparts ! nat k) else None)"

section \<open>CSS pipeline adapter\<close>

definition keyframesPrefix :: jsstring where
  "keyframesPrefix = js ''@keyframes x{''"

definition closeBrace :: jschar where
  "closeBrace = of_nat (of_char CHR ''}'')"

definition openBrace :: jschar where
  "openBrace = of_nat (of_char CHR ''{'')"

text \<open>\<open>str.slice(a, b)\<close> for \<open>0 \<le> a\<close>, \<open>0 \<le> b\<close>.\<close>

definition slice :: "jsstring \<Rightarrow> nat \<Rightarrow> nat \<Rightarrow> jsstring" where
  "slice s a b = take (b - a) (drop a s)"

text \<open>\<open>str[str.length - 1]\<close>: \<open>undefined\<close> on the empty string.\<close>

definition lastChar :: "jsstring \<Rightarrow> jschar option" where
  "lastChar s = (if s = [] then None else Some (last s))"

text \<open>
  \<open>compileCssString\<close>; the preprocessor \<open>stylisInst\<close> and the prefixer
  (\<open>autoprefixer.process(str).css\<close>) are external and taken as parameters.
\<close>

definition compileCssString ::
  "(jsstring \<Rightarrow> jsstring \<Rightarrow> jsstring) \<Rightarrow> (jsstring \<Rightarrow> jsstring) \<Rightarrow> jsstring \<Rightarrow> jsstring \<Rightarrow> bool \<Rightarrow> error + jsstring" where
  "compileCssString stylisInst autoprefixer context str singleKeyframe =
     (let str1 = (if singleKeyframe then keyframesPrefix @ str @ [closeBrace] else str);
          str2 = stylisInst context str1
      in if singleKeyframe then
           (if \<not> (take (length keyframesPrefix) str2 = keyframesPrefix)
               \<or> lastChar str2 \<noteq> Some closeBrace
            then Inl UnexpectedKeyframeCompilation
            else Inr (autoprefixer (slice str2 (length keyframesPrefix) (length str2 - 1))))
         else Inr (autoprefixer str2))"

section \<open>Rule splitter\<close>

text \<open>The state of the scan: the cut index, the brace level, the rules pushed so far.\<close>

record splitState =
  idx :: nat
  level :: int
  rules :: "jsstring list"

definition splitStep :: "jsstring \<Rightarrow> splitState \<Rightarrow> nat \<Rightarrow> splitState" where
  "splitStep out s i =
     (if out ! i = openBrace then s\<lparr>level := level s + 1\<rparr>
      else if out ! i = closeBrace then
        (let s' = s\<lparr>level := level s - 1\<rparr>
         in if level s' = 0
            then s'\<lparr>rules := rules s' @ [slice out (idx s') (i + 1)], idx := i + 1\<rparr>
            else s')
      else s)"

definition splitScan :: "jsstring \<Rightarrow> splitState" where
  "splitScan out = foldl (splitStep out) \<lparr>idx = 0, level = 0, rules = []\<rparr> [0..<length out]"

definition splitRules :: "jsstring \<Rightarrow> bool \<Rightarrow> error + jsstring list" where
  "splitRules out singleKeyframe =
     (if singleKeyframe then Inr [out]
      else (let s = splitScan out
            in if idx s \<noteq> length out then Inl FailedToParseCssRules else Inr (rules s)))"

section \<open>Position classifier\<close>

text \<open>The enum \<open>CssPosition\<close>; \<open>NonePos\<close> is its member \<open>None\<close>.\<close>

datatype CssPosition = NonePos | ElementRule | ElementSelector | MediaSelector

definition atSign :: jschar where
  "atSign = of_nat (of_char CHR ''@'')"

definition space :: jschar where
  "space = of_nat (of_char CHR '' '')"

definition dot :: jschar where
  "dot = of_nat (of_char CHR ''.'')"

text \<open>
  The position update at the head of the loop body. The block for \<open>None\<close> is an
  \<open>if\<close> of its own, so the chain after it already sees the position it has set.
\<close>

definition stepPos :: "CssPosition \<Rightarrow> jschar \<Rightarrow> CssPosition" where
  "stepPos p c =
     (let p1 = (if p = NonePos then
                  (if c = atSign then MediaSelector
                   else if c = closeBrace \<or> c = space then p
                   else ElementSelector)
                else p)
      in if p1 = MediaSelector then (if c = openBrace then ElementSelector else p1)
         else if p1 = ElementSelector then (if c = openBrace then ElementRule else p1)
         else if p1 = ElementRule then (if c = closeBrace then NonePos else p1)
         else p1)"

section \<open>The animation test\<close>

text \<open>White space of \<open>String.prototype.trim\<close> and of \<open>\s\<close>, by code unit.\<close>

definition isWhiteSpace :: "jschar \<Rightarrow> bool" where
  "isWhiteSpace c =
     (let n = unat c
      in (9 \<le> n \<and> n \<le> 13) \<or> n = 32 \<or> n = 160 \<or> n = 5760 \<or> (8192 \<le> n \<and> n \<le> 8202)
         \<or> n = 8232 \<or> n = 8233 \<or> n = 8239 \<or> n = 8287 \<or> n = 12288 \<or> n = 65279)"

definition trimEnd :: "jsstring \<Rightarrow> jsstring" where
  "trimEnd s = rev (dropWhile isWhiteSpace (rev s))"

definition trim :: "jsstring \<Rightarrow> jsstring" where
  "trim s = dropWhile isWhiteSpace (trimEnd s)"

text \<open>
  The flag \<open>i\<close> without \<open>u\<close> folds a code unit through its upper case unless that
  maps a unit of 128 or more below 128; against the ASCII letters of the pattern only
  the two ASCII cases of a letter match.
\<close>

definition toLowerAscii :: "jschar \<Rightarrow> jschar" where
  "toLowerAscii c = (if 65 \<le> unat c \<and> unat c \<le> 90 then c + 32 else c)"

definition endsWithIgnoreCase :: "jsstring \<Rightarrow> jsstring \<Rightarrow> bool" where
  "endsWithIgnoreCase pat s =
     (length pat \<le> length s \<and> map toLowerAscii (drop (length s - length pat) s) = pat)"

text \<open>
  \<open>/animation(-name)?:\s*$/i.exec(s)\<close> as a truth value: the search is not anchored
  on the left, and the colon before \<open>\s*$\<close> is no white space, so \<open>\s*\<close> takes
  the whole run of white space at the end.
\<close>

definition animationRegex :: "jsstring \<Rightarrow> bool" where
  "animationRegex s =
     (let t = trimEnd s
      in endsWithIgnoreCase (js ''animation:'') t \<or> endsWithIgnoreCase (js ''animation-name:'') t)"

section \<open>Terms of a rule\<close>

text \<open>
  The text of a created identifier: \<open>cls\<close>, or \<open>expr\<close> followed by the decimal
  digits of a number, which \<open>ExprName\<close> carries as the number.
\<close>

datatype name = ClsName | ExprName nat

text \<open>
  The nodes that are built: string literals, the identifiers, a node of the template
  spliced in (\<open>UserNode\<close>), the value \<open>undefined\<close>, and the results of
  \<open>ts.createAdd\<close>, \<open>ts.createArrayLiteral\<close>, \<open>ts.createArrowFunction\<close>.
\<close>

datatype 'e expr =
    StringLiteral jsstring
  | Identifier name
  | UserNode 'e
  | Undefined
  | Add "'e expr" "'e expr"
  | ArrayLiteral "'e expr list"
  | ArrowFunction "name list" "'e expr"

definition nodeOf :: "'e option \<Rightarrow> 'e expr" where
  "nodeOf v = (case v of None \<Rightarrow> Undefined | Some e \<Rightarrow> UserNode e)"

text \<open>
  The variables the loop over the rules updates: \<open>exprArgs\<close>, \<open>exprVals\<close> and
  \<open>argsByCode\<close> live through the whole compilation (\<open>argsByCode\<close> is an object
  used as a dictionary, kept in insertion order); \<open>addTerms\<close>, \<open>accum\<close> and
  \<open>pos\<close> start afresh for every rule.
\<close>

record 'e scan =
  exprArgs :: "name list"
  exprVals :: "'e option list"
  argsByCode :: "(jschar \<times> name) list"
  addTerms :: "'e expr list"
  accum :: jsstring
  pos :: CssPosition

definition add :: "'e expr \<Rightarrow> 'e scan \<Rightarrow> 'e scan" where
  "add right s = s\<lparr>addTerms := addTerms s @ [right]\<rparr>"

definition addAccum :: "'e scan \<Rightarrow> 'e scan" where
  "addAccum s =
     (if length (accum s) > 0 then (add (StringLiteral (accum s)) s)\<lparr>accum := []\<rparr> else s)"

text \<open>The body of the loop over the characters of a rule.\<close>

definition ruleChar :: "'e list \<Rightarrow> 'e scan \<Rightarrow> jschar \<Rightarrow> 'e scan" where
  "ruleChar eparts s c =
     (let s1 = s\<lparr>pos := stepPos (pos s) c\<rparr>
      in if c = CLASS_MARKER then add (Identifier ClsName) (addAccum s1)
         else if charCodeAt0 c \<ge> START_CODE then
           (let isClassRef = (pos s1 = ElementSelector);
                isAnimRef = (pos s1 = ElementRule \<and> animationRegex (trim (accum s1)));
                s2 = (if isClassRef then s1\<lparr>accum := accum s1 @ [dot]\<rparr> else s1);
                s3 = addAccum s2
            in case map_of (argsByCode s3) c of
                 Some arg \<Rightarrow> add (Identifier arg) s3
               | None \<Rightarrow>
                   if isClassRef \<or> isAnimRef then
                     (let arg = ExprName (length (exprArgs s3))
                      in add (Identifier arg)
                           (s3\<lparr>exprArgs := exprArgs s3 @ [arg],
                               exprVals := exprVals s3 @ [exprFromChar eparts c],
                               argsByCode := argsByCode s3 @ [(c, arg)]\<rparr>))
                   else add (nodeOf (exprFromChar eparts c)) s3)
         else s1\<lparr>accum := accum s1 @ [c]\<rparr>)"

text \<open>The callback of \<open>rules.map\<close>: the scan of one rule, ending with \<open>addAccum\<close>.\<close>

definition ruleScan :: "'e list \<Rightarrow> 'e scan \<Rightarrow> jsstring \<Rightarrow> 'e scan" where
  "ruleScan eparts s r =
     addAccum (foldl (ruleChar eparts) (s\<lparr>addTerms := [], accum := [], pos := NonePos\<rparr>) r)"

fun mapRules :: "'e list \<Rightarrow> 'e scan \<Rightarrow> jsstring list \<Rightarrow> 'e expr list list \<times> 'e scan" where
  "mapRules eparts s [] = ([], s)"
| "mapRules eparts s (r # rs) =
     (let s' = ruleScan eparts s r;
          (nodes, s'') = mapRules eparts s' rs
      in (addTerms s' # nodes, s''))"

definition initialScan :: "'e scan" where
  "initialScan = \<lparr>exprArgs = [], exprVals = [], argsByCode = [], addTerms = [], accum = [],
                  pos = NonePos\<rparr>"

text \<open>\<open>ruleNodes.filter((arr) => arr.length > 0)\<close>.\<close>

definition filterNodes :: "'e expr list list \<Rightarrow> 'e expr list list" where
  "filterNodes nodes = filter (\<lambda>arr. length arr > 0) nodes"

section \<open>Shape optimizer\<close>

text \<open>
  \<open>ts.createAdd(left, right)\<close> of the compiler API builds a binary expression and,
  to decide on parentheses, reads the \<open>kind\<close> of both operands: an operand that is
  \<open>undefined\<close> is a TypeError.
\<close>

definition createAdd :: "'e expr \<Rightarrow> 'e expr \<Rightarrow> error + 'e expr" where
  "createAdd left right =
     (if left = Undefined \<or> right = Undefined then Inl TypeError else Inr (Add left right))"

text \<open>
  The callback of \<open>addUpRules\<close>: \<open>left = arr[0]\<close>, which is \<open>undefined\<close> for an
  empty array, then \<open>left = ts.createAdd(left, arr[i])\<close> for the other elements.
\<close>

fun addUpFrom :: "'e expr \<Rightarrow> 'e expr list \<Rightarrow> error + 'e expr" where
  "addUpFrom left [] = Inr left"
| "addUpFrom left (x # xs) =
     (case createAdd left x of Inl e \<Rightarrow> Inl e | Inr left' \<Rightarrow> addUpFrom left' xs)"

definition addUp :: "'e expr list \<Rightarrow> error + 'e expr" where
  "addUp arr = (case arr of [] \<Rightarrow> Inr Undefined | left # rest \<Rightarrow> addUpFrom left rest)"

text \<open>\<open>ruleNodes.map\<close> of that callback: the first exception leaves the map.\<close>

fun addUpRules :: "'e expr list list \<Rightarrow> error + 'e expr list" where
  "addUpRules [] = Inr []"
| "addUpRules (arr # arrs) =
     (case addUp arr of
        Inl e \<Rightarrow> Inl e
      | Inr left \<Rightarrow>
          (case addUpRules arrs of Inl e \<Rightarrow> Inl e | Inr lefts \<Rightarrow> Inr (left # lefts)))"

text \<open>\<open>r[i]\<close> and \<open>r.lastIndexOf(c)\<close>.\<close>

definition charAt :: "jsstring \<Rightarrow> nat \<Rightarrow> jschar option" where
  "charAt r i = (if i < length r then Some (r ! i) else None)"

fun lastIndexFrom :: "jschar \<Rightarrow> jsstring \<Rightarrow> nat \<Rightarrow> int \<Rightarrow> int" where
  "lastIndexFrom c [] i found = found"
| "lastIndexFrom c (x # xs) i found = lastIndexFrom c xs (i + 1) (if x = c then int i else found)"

definition lastIndexOf :: "jsstring \<Rightarrow> jschar \<Rightarrow> int" where
  "lastIndexOf r c = lastIndexFrom c r 0 (- 1)"

text \<open>
  The loop that sets \<open>allSimple\<close> and \<open>isSuperSimple\<close>, returned in this order; it
  leaves at the first rule that is not simple. (\<open>simpleStrings\<close> is never read.)
\<close>

fun simpleScan :: "jsstring list \<Rightarrow> bool \<Rightarrow> bool \<times> bool" where
  "simpleScan [] isSuperSimple = (True, isSuperSimple)"
| "simpleScan (r # rs) isSuperSimple =
     (if charAt r 0 = Some CLASS_MARKER \<and> lastIndexOf r CLASS_MARKER = 0
      then simpleScan rs (if charAt r 1 \<noteq> Some openBrace then False else isSuperSimple)
      else (False, isSuperSimple))"

text \<open>
  Removing the \<open>{\<close> of \<open>rn[0].text\<close> and the \<open>}\<close> of the last term. An identifier
  has the text \<open>cls\<close> or \<open>expr\<close>\<open>n\<close>, which neither starts with \<open>{\<close> nor ends
  with \<open>}\<close>; \<open>undefined\<close> has no property; a node of the template is taken to
  have no \<open>text\<close>, so that indexing its \<open>text\<close> is a TypeError as well.
\<close>

fun stripOpen :: "'e expr list \<Rightarrow> error + 'e expr list" where
  "stripOpen [] = Inl TypeError"
| "stripOpen (StringLiteral s # rest) =
     (if charAt s 0 \<noteq> Some openBrace then Inl Unexpected1
      else Inr (StringLiteral (drop 1 s) # rest))"
| "stripOpen (Identifier n # rest) = Inl Unexpected1"
| "stripOpen (x # rest) = Inl TypeError"

definition stripClose :: "'e expr list \<Rightarrow> error + 'e expr list" where
  "stripClose rn =
     (if rn = [] then Inl TypeError
      else case last rn of
             StringLiteral s \<Rightarrow>
               (if lastChar s \<noteq> Some closeBrace then Inl Unexpected2
                else (let s' = slice s 0 (length s - 1)
                      in if length s' = 0 then Inr (butlast rn)
                         else Inr (butlast rn @ [StringLiteral s'])))
           | Identifier n \<Rightarrow> Inl Unexpected2
           | _ \<Rightarrow> Inl TypeError)"

text \<open>The callback of \<open>ruleNodes.map\<close> in the static branch.\<close>

definition simplifyRule :: "bool \<Rightarrow> 'e expr list \<Rightarrow> error + 'e expr list" where
  "simplifyRule collapseSingle rn =
     (case rn of
        [] \<Rightarrow> Inl Unexpected
      | x # rest \<Rightarrow>
          if x \<noteq> Identifier ClsName then Inl Unexpected
          else if collapseSingle then
            (case stripOpen rest of Inl e \<Rightarrow> Inl e | Inr rn1 \<Rightarrow> stripClose rn1)
          else Inr rest)"

fun simplifyRules :: "bool \<Rightarrow> 'e expr list list \<Rightarrow> error + 'e expr list list" where
  "simplifyRules collapseSingle [] = Inr []"
| "simplifyRules collapseSingle (rn # rns) =
     (case simplifyRule collapseSingle rn of
        Inl e \<Rightarrow> Inl e
      | Inr rn' \<Rightarrow>
          (case simplifyRules collapseSingle rns of
             Inl e \<Rightarrow> Inl e
           | Inr rns' \<Rightarrow> Inr (rn' # rns')))"

record 'e compiled =
  tmpl :: "'e expr"
  args :: "'e option list"

definition keyframeShape :: "'e expr list list \<Rightarrow> 'e scan \<Rightarrow> error + 'e compiled" where
  "keyframeShape ruleNodes s =
     (if length (exprVals s) > 0 then Inl ComponentReferencesInKeyframes
      else if length ruleNodes \<noteq> 1 then Inl UnexpectedKeyframesCount
      else (case addUpRules ruleNodes of
              Inl e \<Rightarrow> Inl e
            | Inr sums \<Rightarrow> Inr \<lparr>tmpl = sums ! 0, args = []\<rparr>))"

definition staticShape :: "bool \<Rightarrow> 'e expr list list \<Rightarrow> error + 'e compiled" where
  "staticShape isSuperSimple ruleNodes =
     (let collapseSingle = (length ruleNodes = 1 \<and> isSuperSimple)
      in case simplifyRules collapseSingle ruleNodes of
           Inl e \<Rightarrow> Inl e
         | Inr rns \<Rightarrow>
             (case addUpRules rns of
                Inl e \<Rightarrow> Inl e
              | Inr sums \<Rightarrow>
                  Inr \<lparr>tmpl = (if collapseSingle then sums ! 0 else ArrayLiteral sums),
                       args = []\<rparr>))"

definition functionalShape :: "'e expr list list \<Rightarrow> 'e scan \<Rightarrow> error + 'e compiled" where
  "functionalShape ruleNodes s =
     (case addUpRules ruleNodes of
        Inl e \<Rightarrow> Inl e
      | Inr sums \<Rightarrow>
          Inr \<lparr>tmpl = ArrowFunction (ClsName # exprArgs s) (ArrayLiteral sums),
               args = exprVals s\<rparr>)"

text \<open>Everything after the filter: the choice of the shape.\<close>

definition selectShape ::
  "bool \<Rightarrow> jsstring list \<Rightarrow> 'e expr list list \<Rightarrow> 'e scan \<Rightarrow> error + 'e compiled" where
  "selectShape singleKeyframe rs ruleNodes s =
     (if singleKeyframe then keyframeShape ruleNodes s
      else if length (exprVals s) = 0 \<and> fst (simpleScan rs True)
      then staticShape (snd (simpleScan rs True)) ruleNodes
      else functionalShape ruleNodes s)"

text \<open>From the rules to the result: the scan of the rules, the filter, the shape.\<close>

definition compileRules :: "bool \<Rightarrow> 'e list \<Rightarrow> jsstring list \<Rightarrow> error + 'e compiled" where
  "compileRules singleKeyframe eparts rs =
     (let (nodes, s) = mapRules eparts initialScan rs
      in selectShape singleKeyframe rs (filterNodes nodes) s)"

section \<open>The whole of \<open>transformTemplate\<close>\<close>

definition transformTemplate ::
  "(jsstring \<Rightarrow> jsstring \<Rightarrow> jsstring) \<Rightarrow> (jsstring \<Rightarrow> jsstring) \<Rightarrow> 'e tnode \<Rightarrow> bool
     \<Rightarrow> error + 'e compiled" where
  "transformTemplate stylisInst autoprefixer t singleKeyframe =
     (case traverseExtract t [] of
        Inl e \<Rightarrow> Inl e
      | Inr parts \<Rightarrow>
          (case compileCssString stylisInst autoprefixer [CLASS_MARKER] (combined parts)
                  singleKeyframe of
             Inl e \<Rightarrow> Inl e
           | Inr out \<Rightarrow>
               (case splitRules out singleKeyframe of
                  Inl e \<Rightarrow> Inl e
                | Inr rs \<Rightarrow> compileRules singleKeyframe (exprParts parts) rs)))"

section \<open>Auxiliary notions for the properties\<close>

text \<open>
  The table of named slots is well formed: no code unit is bound twice, the arguments
  are \<open>expr0\<close>, \<open>expr1\<close>, ... in the order of binding, and the value of every
  slot is what \<open>exprFromChar\<close> gives for the code unit bound to it.
\<close>

definition slotTable :: "'e list \<Rightarrow> 'e scan \<Rightarrow> bool" where
  "slotTable eparts s \<longleftrightarrow>
     distinct (map fst (argsByCode s))
     \<and> exprArgs s = map ExprName [0..<length (argsByCode s)]
     \<and> map snd (argsByCode s) = exprArgs s
     \<and> exprVals s = map (\<lambda>p. exprFromChar eparts (fst p)) (argsByCode s)"


text \<open>
  Follows the spec's words (round trip of the marker codec): the flattened text is split
  at the expression markers, the code units the scan of a rule treats as such, and every
  marker is decoded with \<open>exprFromChar\<close>; \<open>lit\<close> is the literal read so far.
\<close>

fun spec_resplit :: "'e list \<Rightarrow> jsstring \<Rightarrow> jsstring \<Rightarrow> 'e option part list" where
  "spec_resplit eparts lit [] = [Str lit]"
| "spec_resplit eparts lit (c # cs) =
     (if c \<noteq> CLASS_MARKER \<and> charCodeAt0 c \<ge> START_CODE
      then Str lit # Node (exprFromChar eparts c) # spec_resplit eparts [] cs
      else spec_resplit eparts (lit @ [c]) cs)"

text \<open>
  Follows the spec's words (rule splitter): the brace depth of a text, the positions at
  which the depth returns to 0 on a \<open>}\<close>, the cut index after the last of them, and
  the blocks, each from the cut index through such a position inclusive.
\<close>

definition spec_depth :: "jsstring \<Rightarrow> int" where
  "spec_depth s =
     sum_list (map (\<lambda>c. if c = openBrace then 1 else if c = closeBrace then - 1 else 0) s)"

definition spec_closes :: "jsstring \<Rightarrow> nat \<Rightarrow> nat list" where
  "spec_closes out n =
     filter (\<lambda>k. out ! k = closeBrace \<and> spec_depth (take (Suc k) out) = 0) [0..<n]"

definition spec_cutAfter :: "nat \<Rightarrow> nat list \<Rightarrow> nat" where
  "spec_cutAfter start ks = (if ks = [] then start else Suc (last ks))"

fun spec_blocksFrom :: "jsstring \<Rightarrow> nat \<Rightarrow> nat list \<Rightarrow> jsstring list" where
  "spec_blocksFrom out start [] = []"
| "spec_blocksFrom out start (k # ks) = slice out start (Suc k) # spec_blocksFrom out (Suc k) ks"

definition spec_blocks :: "jsstring \<Rightarrow> jsstring list" where
  "spec_blocks out = spec_blocksFrom out 0 (spec_closes out (length out))"

definition spec_cut :: "jsstring \<Rightarrow> nat" where
  "spec_cut out = spec_cutAfter 0 (spec_closes out (length out))"

text \<open>
  Follows the spec's words (position classifier): the markers of a rule block that are
  promoted where they occur, in order of occurrence. A marker is promoted in selector
  position (class reference), and in the declaration body when the accumulated text
  before it, trimmed, matches the animation property (animation-name reference);
  \<open>acc\<close> is the text accumulated since the last marker.
\<close>

fun spec_promoted :: "CssPosition \<Rightarrow> jsstring \<Rightarrow> jsstring \<Rightarrow> jschar list" where
  "spec_promoted p acc [] = []"
| "spec_promoted p acc (c # cs) =
     (if c = CLASS_MARKER then spec_promoted (stepPos p c) [] cs
      else if START_CODE \<le> charCodeAt0 c then
        (if stepPos p c = ElementSelector
            \<or> (stepPos p c = ElementRule \<and> animationRegex (trim acc))
         then c # spec_promoted (stepPos p c) [] cs
         else spec_promoted (stepPos p c) [] cs)
      else spec_promoted (stepPos p c) (acc @ [c]) cs)"

text \<open>
  Follows the spec's words (named slots): one slot per distinct promoted marker, in the
  order in which the markers are first promoted, over the rule blocks in order.
\<close>

definition spec_intern :: "jschar list \<Rightarrow> jschar \<Rightarrow> jschar list" where
  "spec_intern codes c = (if c \<in> set codes then codes else codes @ [c])"

definition spec_slots :: "jsstring list \<Rightarrow> jschar list" where
  "spec_slots rs = foldl spec_intern [] (concat (map (spec_promoted NonePos []) rs))"

text \<open>
  The sum of a list of terms, associated to the left: what \<open>addUp\<close> returns when no
  \<open>ts.createAdd\<close> throws.
\<close>

definition termSum :: "'e expr list \<Rightarrow> 'e expr" where
  "termSum arr = (case arr of [] \<Rightarrow> Undefined | left # rest \<Rightarrow> foldl Add left rest)"

text \<open>An expression marker of the processed text: what the scan of a rule treats as one.\<close>

definition isExprMarker :: "jschar \<Rightarrow> bool" where
  "isExprMarker c \<longleftrightarrow> c \<noteq> CLASS_MARKER \<and> START_CODE \<le> charCodeAt0 c"

text \<open>The parts a well-typed template span contributes: its expression, then its literal.\<close>

fun spanParts :: "'e tnode \<Rightarrow> 'e part list" where
  "spanParts (TemplateSpan e (TemplateMiddle s)) = [Node e, Str s]"
| "spanParts (TemplateSpan e (TemplateTail s)) = [Node e, Str s]"
| "spanParts _ = []"

section \<open>Properties of the CSS pipeline adapter\<close>

lemma keyframesPrefix_length: "length keyframesPrefix = 13"
  by (simp add: keyframesPrefix_def js_def)

lemma keyframesPrefix_last: "last keyframesPrefix = openBrace"
  by (simp add: keyframesPrefix_def js_def openBrace_def)

lemma open_neq_close: "openBrace \<noteq> closeBrace"
  by (simp add: openBrace_def closeBrace_def)

lemma wrapped_iff:
  "(take (length keyframesPrefix) s = keyframesPrefix \<and> lastChar s = Some closeBrace)
   \<longleftrightarrow> (\<exists>body. s = keyframesPrefix @ body @ [closeBrace])"
proof
  assume h: "take (length keyframesPrefix) s = keyframesPrefix \<and> lastChar s = Some closeBrace"
  then have ne: "s \<noteq> []" and l: "last s = closeBrace"
    by (auto simp: lastChar_def split: if_splits)
  from h have s: "s = keyframesPrefix @ drop (length keyframesPrefix) s"
    by (metis append_take_drop_id)
  have "drop (length keyframesPrefix) s \<noteq> []"
  proof
    assume "drop (length keyframesPrefix) s = []"
    with s have "s = keyframesPrefix" by simp
    with l keyframesPrefix_last open_neq_close show False by simp
  qed
  then obtain body x where d: "drop (length keyframesPrefix) s = body @ [x]"
    by (metis append_butlast_last_id)
  with s have s': "s = keyframesPrefix @ body @ [x]" by simp
  then have "last s = x" by (metis append_assoc last_snoc)
  with l s' have "s = keyframesPrefix @ body @ [closeBrace]" by simp
  then show "\<exists>body. s = keyframesPrefix @ body @ [closeBrace]" ..
next
  assume "\<exists>body. s = keyframesPrefix @ body @ [closeBrace]"
  then show "take (length keyframesPrefix) s = keyframesPrefix \<and> lastChar s = Some closeBrace"
    by (auto simp: lastChar_def)
qed

lemma unwrap_slice:
  "slice (keyframesPrefix @ body @ [closeBrace]) (length keyframesPrefix)
     (length (keyframesPrefix @ body @ [closeBrace]) - 1) = body"
  by (simp add: slice_def)

text \<open>
  Claim C8. In keyframe mode \<open>compileCssString\<close> hands the preprocessor the text
  \<open>@keyframes x{\<close> + str + \<open>}\<close>. When the processed text is that prefix, a body
  and a final \<open>}\<close>, exactly the prefix and the final \<open>}\<close> are stripped and the
  body goes to the prefixer; in every other case the call fails with
  \<open>Unexpected keyframe compilation\<close>.
\<close>

theorem keyframe_wrapping:
  "(\<forall>body. stylisInst context (js ''@keyframes x{'' @ str @ js ''}'') = js ''@keyframes x{'' @ body @ js ''}''
      \<longrightarrow> compileCssString stylisInst autoprefixer context str True = Inr (autoprefixer body))
   \<and> ((\<nexists>body. stylisInst context (js ''@keyframes x{'' @ str @ js ''}'') = js ''@keyframes x{'' @ body @ js ''}'')
      \<longrightarrow> compileCssString stylisInst autoprefixer context str True = Inl UnexpectedKeyframeCompilation)
   \<and> message UnexpectedKeyframeCompilation = ''Unexpected keyframe compilation''"
proof -
  have c: "js ''}'' = [closeBrace]" by (simp add: js_def closeBrace_def)
  have p: "js ''@keyframes x{'' = keyframesPrefix" by (simp add: keyframesPrefix_def)
  show ?thesis
    unfolding c p
  proof (intro conjI allI impI)
    fix body
    assume e: "stylisInst context (keyframesPrefix @ str @ [closeBrace]) = keyframesPrefix @ body @ [closeBrace]"
    show "compileCssString stylisInst autoprefixer context str True = Inr (autoprefixer body)"
      using unwrap_slice [of body]
      by (simp add: compileCssString_def Let_def e lastChar_def)
  next
    assume n: "\<nexists>body. stylisInst context (keyframesPrefix @ str @ [closeBrace]) = keyframesPrefix @ body @ [closeBrace]"
    then have "\<not> (take (length keyframesPrefix) (stylisInst context (keyframesPrefix @ str @ [closeBrace])) = keyframesPrefix
       \<and> lastChar (stylisInst context (keyframesPrefix @ str @ [closeBrace])) = Some closeBrace)"
      unfolding wrapped_iff .
    then show "compileCssString stylisInst autoprefixer context str True = Inl UnexpectedKeyframeCompilation"
      by (auto simp: compileCssString_def Let_def)
  next
    show "message UnexpectedKeyframeCompilation = ''Unexpected keyframe compilation''" by simp
  qed
qed

theorem keyframe_wrapping_witness:
  "compileCssString (\<lambda>context str. str) (\<lambda>str. str) [CLASS_MARKER] (js ''0%{opacity:0;}'') True = Inr (js ''0%{opacity:0;}'')
   \<and> compileCssString (\<lambda>context str. []) (\<lambda>str. str) [CLASS_MARKER] (js ''0%{opacity:0;}'') True = Inl UnexpectedKeyframeCompilation"
proof -
  have a: "compileCssString (\<lambda>context str. str) (\<lambda>str. str) [CLASS_MARKER] (js ''0%{opacity:0;}'') True = Inr (js ''0%{opacity:0;}'')"
    using keyframe_wrapping [of "\<lambda>context str. str" "[CLASS_MARKER]" "js ''0%{opacity:0;}''" "\<lambda>str. str"]
    by simp
  have b: "compileCssString (\<lambda>context str. []) (\<lambda>str. str) [CLASS_MARKER] (js ''0%{opacity:0;}'') True = Inl UnexpectedKeyframeCompilation"
    using keyframe_wrapping [of "\<lambda>context str. []" "[CLASS_MARKER]" "js ''0%{opacity:0;}''" "\<lambda>str. str"]
    by (simp add: js_def)
  from a b show ?thesis ..
qed

section \<open>Properties of the rule splitter and of the position classifier\<close>

lemma splitStep_invariant:
  assumes "i < length out" "concat (rules s) = take (idx s) out" "idx s \<le> i"
  shows "concat (rules (splitStep out s i)) = take (idx (splitStep out s i)) out
         \<and> idx (splitStep out s i) \<le> Suc i"
proof -
  have "take (idx s) out @ slice out (idx s) (Suc i) = take (Suc i) out"
    using assms(3) unfolding slice_def
    by (metis le_SucI le_add_diff_inverse take_add)
  with assms show ?thesis
    by (simp add: splitStep_def Let_def)
qed

lemma splitScan_invariant:
  "n \<le> length out \<Longrightarrow>
   concat (rules (foldl (splitStep out) \<lparr>idx = 0, level = 0, rules = []\<rparr> [0..<n]))
     = take (idx (foldl (splitStep out) \<lparr>idx = 0, level = 0, rules = []\<rparr> [0..<n])) out
   \<and> idx (foldl (splitStep out) \<lparr>idx = 0, level = 0, rules = []\<rparr> [0..<n]) \<le> n"
proof (induction n)
  case 0
  then show ?case by simp
next
  case (Suc n)
  then show ?case
    using splitStep_invariant [of n out "foldl (splitStep out) \<lparr>idx = 0, level = 0, rules = []\<rparr> [0..<n]"]
    by simp
qed

lemma splitScan_concat: "concat (rules (splitScan out)) = take (idx (splitScan out)) out"
  using splitScan_invariant [of "length out" out] by (simp add: splitScan_def)

lemma spec_depth_snoc:
  "spec_depth (s @ [c]) = spec_depth s + (if c = openBrace then 1 else if c = closeBrace then - 1 else 0)"
  by (simp add: spec_depth_def)

lemma spec_closes_Suc:
  "spec_closes out (Suc n) =
     spec_closes out n @ (if out ! n = closeBrace \<and> spec_depth (take (Suc n) out) = 0 then [n] else [])"
  by (simp add: spec_closes_def)

lemma spec_blocksFrom_snoc:
  "spec_blocksFrom out start (ks @ [k]) =
     spec_blocksFrom out start ks @ [slice out (spec_cutAfter start ks) (Suc k)]"
  by (induction ks arbitrary: start) (simp_all add: spec_cutAfter_def)

lemma splitScan_spec:
  "n \<le> length out \<Longrightarrow>
   foldl (splitStep out) \<lparr>idx = 0, level = 0, rules = []\<rparr> [0..<n]
     = \<lparr>idx = spec_cutAfter 0 (spec_closes out n), level = spec_depth (take n out),
        rules = spec_blocksFrom out 0 (spec_closes out n)\<rparr>"
proof (induction n)
  case 0
  then show ?case by (simp add: spec_closes_def spec_cutAfter_def spec_depth_def)
next
  case (Suc n)
  then have n: "n < length out" by simp
  then have t: "take (Suc n) out = take n out @ [out ! n]"
    by (rule take_Suc_conv_app_nth)
  have d: "spec_depth (take (Suc n) out)
     = spec_depth (take n out)
       + (if out ! n = openBrace then 1 else if out ! n = closeBrace then - 1 else 0)"
    unfolding t by (rule spec_depth_snoc)
  from Suc have ih: "foldl (splitStep out) \<lparr>idx = 0, level = 0, rules = []\<rparr> [0..<n]
     = \<lparr>idx = spec_cutAfter 0 (spec_closes out n), level = spec_depth (take n out),
        rules = spec_blocksFrom out 0 (spec_closes out n)\<rparr>" by simp
  have "foldl (splitStep out) \<lparr>idx = 0, level = 0, rules = []\<rparr> [0..<Suc n]
     = splitStep out (foldl (splitStep out) \<lparr>idx = 0, level = 0, rules = []\<rparr> [0..<n]) n"
    by simp
  also have "\<dots> = splitStep out \<lparr>idx = spec_cutAfter 0 (spec_closes out n),
        level = spec_depth (take n out), rules = spec_blocksFrom out 0 (spec_closes out n)\<rparr> n"
    by (simp only: ih)
  also have "\<dots> = \<lparr>idx = spec_cutAfter 0 (spec_closes out (Suc n)),
        level = spec_depth (take (Suc n) out),
        rules = spec_blocksFrom out 0 (spec_closes out (Suc n))\<rparr>"
    using open_neq_close
    by (simp add: splitStep_def Let_def spec_closes_Suc d spec_blocksFrom_snoc
        spec_cutAfter_def del: take_Suc_conv_app_nth)
  finally show ?case .
qed

lemma splitScan_eq_spec:
  "splitScan out = \<lparr>idx = spec_cut out, level = spec_depth out, rules = spec_blocks out\<rparr>"
  using splitScan_spec [of "length out" out]
  by (simp add: splitScan_def spec_cut_def spec_blocks_def)

lemma spec_closes_positive:
  "k \<in> set (spec_closes out n) \<Longrightarrow> n \<le> length out \<Longrightarrow> spec_depth (take k out) = 1"
proof -
  assume k: "k \<in> set (spec_closes out n)" and n: "n \<le> length out"
  then have kl: "k < length out" and c: "out ! k = closeBrace"
    and z: "spec_depth (take (Suc k) out) = 0"
    by (auto simp: spec_closes_def)
  from kl have "take (Suc k) out = take k out @ [out ! k]" by (rule take_Suc_conv_app_nth)
  with z c open_neq_close show ?thesis by (simp add: spec_depth_snoc)
qed

text \<open>
  Claim C3. Outside keyframe mode the splitter scans with a brace level: \<open>{\<close> raises
  it, \<open>}\<close> lowers it, and a block from the cut index through the current character is
  closed exactly when a \<open>}\<close> takes the level from 1 to 0. The scan ends with the cut
  index after the last position at which the depth returns to 0 on a \<open>}\<close>, and the
  depth before each such position is 1. The call fails with
  \<open>Failed to parse css rules\<close> exactly when that cut index differs from the length of
  the text, and otherwise returns exactly the blocks that end at these positions, whose
  concatenation is the text. In keyframe mode the whole text is the one block.
\<close>

theorem splitRules_partition:
  "splitRules out False
     = (if spec_cut out \<noteq> length out then Inl FailedToParseCssRules else Inr (spec_blocks out))
   \<and> idx (splitScan out) = spec_cut out
   \<and> (\<forall>k\<in>set (spec_closes out (length out)). spec_depth (take k out) = 1)
   \<and> (splitRules out False = Inl FailedToParseCssRules \<longleftrightarrow> idx (splitScan out) \<noteq> length out)
   \<and> (splitRules out False = Inl FailedToParseCssRules
        \<or> (\<exists>blocks. splitRules out False = Inr blocks \<and> concat blocks = out))
   \<and> (i < length out \<longrightarrow>
        level (splitStep out s i)
          = level s + (if out ! i = openBrace then 1 else if out ! i = closeBrace then - 1 else 0)
        \<and> rules (splitStep out s i)
          = (if out ! i = closeBrace \<and> level s = 1 then rules s @ [slice out (idx s) (i + 1)]
             else rules s)
        \<and> idx (splitStep out s i)
          = (if out ! i = closeBrace \<and> level s = 1 then i + 1 else idx s))
   \<and> splitRules out True = Inr [out]
   \<and> message FailedToParseCssRules = ''Failed to parse css rules''"
proof -
  have sp: "splitRules out False
     = (if spec_cut out \<noteq> length out then Inl FailedToParseCssRules else Inr (spec_blocks out))"
    by (simp add: splitRules_def Let_def splitScan_eq_spec)
  have ix: "idx (splitScan out) = spec_cut out"
    by (simp add: splitScan_eq_spec)
  have ps: "\<forall>k\<in>set (spec_closes out (length out)). spec_depth (take k out) = 1"
    using spec_closes_positive [of _ out "length out"] by blast
  have a: "splitRules out False = Inl FailedToParseCssRules \<longleftrightarrow> idx (splitScan out) \<noteq> length out"
    by (simp add: splitRules_def Let_def)
  have b: "splitRules out False = Inl FailedToParseCssRules
        \<or> (\<exists>blocks. splitRules out False = Inr blocks \<and> concat blocks = out)"
    using splitScan_concat [of out] by (simp add: splitRules_def Let_def)
  have c: "level (splitStep out s i)
          = level s + (if out ! i = openBrace then 1 else if out ! i = closeBrace then - 1 else 0)
        \<and> rules (splitStep out s i)
          = (if out ! i = closeBrace \<and> level s = 1 then rules s @ [slice out (idx s) (i + 1)]
             else rules s)
        \<and> idx (splitStep out s i)
          = (if out ! i = closeBrace \<and> level s = 1 then i + 1 else idx s)"
    by (simp add: splitStep_def Let_def openBrace_def closeBrace_def)
  have d: "splitRules out True = Inr [out]"
    by (simp add: splitRules_def)
  have m: "message FailedToParseCssRules = ''Failed to parse css rules''" by simp
  from sp ix ps a b c d m show ?thesis by blast
qed

theorem splitRules_partition_witness:
  "spec_cut (js ''a{b}c{d{e}}'') = length (js ''a{b}c{d{e}}'')
   \<and> spec_closes (js ''a{b}c{d{e}}'') (length (js ''a{b}c{d{e}}'')) = [3, 10]
   \<and> splitRules (js ''a{b}c{d{e}}'') False = Inr [js ''a{b}'', js ''c{d{e}}'']
   \<and> concat [js ''a{b}'', js ''c{d{e}}''] = js ''a{b}c{d{e}}''
   \<and> spec_cut (js ''a{b}c'') \<noteq> length (js ''a{b}c'')
   \<and> splitRules (js ''a{b}c'') False = Inl FailedToParseCssRules"
proof -
  have cl: "spec_closes (js ''a{b}c{d{e}}'') (length (js ''a{b}c{d{e}}'')) = [3, 10]"
    by (simp add: spec_closes_def spec_depth_def js_def openBrace_def closeBrace_def)
  have ct: "spec_cut (js ''a{b}c{d{e}}'') = length (js ''a{b}c{d{e}}'')"
    unfolding spec_cut_def cl by (simp add: spec_cutAfter_def js_def)
  have bl: "spec_blocks (js ''a{b}c{d{e}}'') = [js ''a{b}'', js ''c{d{e}}'']"
    unfolding spec_blocks_def cl by (simp add: slice_def js_def)
  have cl2: "spec_closes (js ''a{b}c'') (length (js ''a{b}c'')) = [3]"
    by (simp add: spec_closes_def spec_depth_def js_def openBrace_def closeBrace_def)
  have ct2: "spec_cut (js ''a{b}c'') \<noteq> length (js ''a{b}c'')"
    unfolding spec_cut_def cl2 by (simp add: spec_cutAfter_def js_def)
  note t1 = splitRules_partition [of "js ''a{b}c{d{e}}''" 0 undefined]
  from t1 have "splitRules (js ''a{b}c{d{e}}'') False
     = (if spec_cut (js ''a{b}c{d{e}}'') \<noteq> length (js ''a{b}c{d{e}}'')
        then Inl FailedToParseCssRules else Inr (spec_blocks (js ''a{b}c{d{e}}'')))" by blast
  with ct bl have r: "splitRules (js ''a{b}c{d{e}}'') False = Inr [js ''a{b}'', js ''c{d{e}}'']"
    by simp
  from t1 r have c: "concat [js ''a{b}'', js ''c{d{e}}''] = js ''a{b}c{d{e}}''" by auto
  note t2 = splitRules_partition [of "js ''a{b}c''" 0 undefined]
  from t2 have "splitRules (js ''a{b}c'') False
     = (if spec_cut (js ''a{b}c'') \<noteq> length (js ''a{b}c'')
        then Inl FailedToParseCssRules else Inr (spec_blocks (js ''a{b}c'')))" by blast
  with ct2 have f: "splitRules (js ''a{b}c'') False = Inl FailedToParseCssRules" by simp
  from ct cl r c ct2 f show ?thesis by blast
qed

text \<open>
  Against claim C4 as stated: in \<open>None\<close> the character \<open>{\<close> does change the
  position, to the declaration body.
\<close>

theorem stepPos_brace_counterexample:
  "stepPos NonePos openBrace = ElementRule \<and> stepPos NonePos openBrace \<noteq> NonePos"
  by (simp add: stepPos_def openBrace_def atSign_def closeBrace_def space_def)

text \<open>
  Claim C4, amended. In \<open>None\<close>, \<open>@\<close> moves to \<open>MediaSelector\<close>, a space and
  \<open>}\<close> cause no transition, \<open>{\<close> moves to the declaration body
  (\<open>ElementRule\<close>) and any other character to the selector (\<open>ElementSelector\<close>);
  in \<open>MediaSelector\<close>, \<open>{\<close> moves to the selector; in the selector, \<open>{\<close> moves
  to the declaration body; in the declaration body, \<open>}\<close> moves to \<open>None\<close>; no
  other character changes the position.
\<close>

theorem stepPos_transitions:
  "stepPos NonePos c =
     (if c = atSign then MediaSelector
      else if c = space \<or> c = closeBrace then NonePos
      else if c = openBrace then ElementRule
      else ElementSelector)
   \<and> stepPos MediaSelector c = (if c = openBrace then ElementSelector else MediaSelector)
   \<and> stepPos ElementSelector c = (if c = openBrace then ElementRule else ElementSelector)
   \<and> stepPos ElementRule c = (if c = closeBrace then NonePos else ElementRule)"
  by (simp add: stepPos_def openBrace_def atSign_def closeBrace_def space_def)

theorem stepPos_transitions_witness:
  "stepPos NonePos atSign = MediaSelector \<and> stepPos NonePos space = NonePos
   \<and> stepPos NonePos closeBrace = NonePos \<and> stepPos NonePos dot = ElementSelector
   \<and> stepPos NonePos openBrace = ElementRule
   \<and> stepPos MediaSelector openBrace = ElementSelector \<and> stepPos MediaSelector atSign = MediaSelector
   \<and> stepPos ElementSelector openBrace = ElementRule \<and> stepPos ElementSelector closeBrace = ElementSelector
   \<and> stepPos ElementRule closeBrace = NonePos \<and> stepPos ElementRule openBrace = ElementRule"
  using stepPos_transitions [of atSign] stepPos_transitions [of space]
    stepPos_transitions [of closeBrace] stepPos_transitions [of dot]
    stepPos_transitions [of openBrace]
  by (simp add: openBrace_def atSign_def closeBrace_def space_def dot_def)

section \<open>Properties of the scan of the rules and of keyframe mode\<close>

lemma add_fields:
  "exprArgs (add x s) = exprArgs s" "exprVals (add x s) = exprVals s"
  "argsByCode (add x s) = argsByCode s" "addTerms (add x s) = addTerms s @ [x]"
  "accum (add x s) = accum s" "pos (add x s) = pos s"
  by (simp_all add: add_def)

lemma addAccum_fields:
  "exprArgs (addAccum s) = exprArgs s" "exprVals (addAccum s) = exprVals s"
  "argsByCode (addAccum s) = argsByCode s"
  "addTerms (addAccum s) = (if accum s = [] then addTerms s else addTerms s @ [StringLiteral (accum s)])"
  "accum (addAccum s) = []" "pos (addAccum s) = pos s"
  by (simp_all add: addAccum_def add_fields)

lemma ruleChar_progress:
  "addTerms (ruleChar eparts s c) \<noteq> [] \<or> accum (ruleChar eparts s c) \<noteq> []"
  by (simp add: ruleChar_def Let_def add_fields addAccum_fields split: option.splits)

lemma ruleScan_Nil: "addTerms (ruleScan eparts s []) = []"
  by (simp add: ruleScan_def addAccum_fields)

lemma ruleScan_nonempty:
  assumes "r \<noteq> []"
  shows "addTerms (ruleScan eparts s r) \<noteq> []"
proof -
  from assms obtain r' c where r: "r = r' @ [c]"
    by (metis append_butlast_last_id)
  let ?s = "foldl (ruleChar eparts) (s\<lparr>addTerms := [], accum := [], pos := NonePos\<rparr>) r'"
  have "addTerms (ruleChar eparts ?s c) \<noteq> [] \<or> accum (ruleChar eparts ?s c) \<noteq> []"
    by (rule ruleChar_progress)
  then have "addTerms (addAccum (ruleChar eparts ?s c)) \<noteq> []"
    by (auto simp: addAccum_fields)
  then show ?thesis by (simp add: ruleScan_def r)
qed

lemma ruleScan_empty_iff: "addTerms (ruleScan eparts s r) = [] \<longleftrightarrow> r = []"
  using ruleScan_Nil ruleScan_nonempty by blast

lemma ruleScan_Nil_slots:
  "exprVals (ruleScan eparts s []) = exprVals s"
  by (simp add: ruleScan_def addAccum_fields)

lemma splitStep_nonempty:
  assumes "i < length out" "idx s \<le> i" "\<forall>r\<in>set (rules s). r \<noteq> []"
  shows "(\<forall>r\<in>set (rules (splitStep out s i)). r \<noteq> []) \<and> idx (splitStep out s i) \<le> Suc i"
  using assms by (auto simp: splitStep_def Let_def slice_def)

lemma splitScan_nonempty_aux:
  "n \<le> length out \<Longrightarrow>
   (\<forall>r\<in>set (rules (foldl (splitStep out) \<lparr>idx = 0, level = 0, rules = []\<rparr> [0..<n])). r \<noteq> [])
   \<and> idx (foldl (splitStep out) \<lparr>idx = 0, level = 0, rules = []\<rparr> [0..<n]) \<le> n"
proof (induction n)
  case 0
  then show ?case by simp
next
  case (Suc n)
  then show ?case
    using splitStep_nonempty [of n out "foldl (splitStep out) \<lparr>idx = 0, level = 0, rules = []\<rparr> [0..<n]"]
    by simp
qed

lemma splitRules_nonempty:
  "splitRules out False = Inr rs \<Longrightarrow> \<forall>r\<in>set rs. r \<noteq> []"
  using splitScan_nonempty_aux [of "length out" out]
  by (auto simp: splitRules_def splitScan_def Let_def split: if_splits)

lemma mapRules_Cons:
  "mapRules eparts s (r # rs) =
     (addTerms (ruleScan eparts s r) # fst (mapRules eparts (ruleScan eparts s r) rs),
      snd (mapRules eparts (ruleScan eparts s r) rs))"
  by (simp add: Let_def split: prod.splits)


lemma mapRules_nonempty:
  "\<forall>r\<in>set rs. r \<noteq> [] \<Longrightarrow> \<forall>n\<in>set (fst (mapRules eparts s rs)). n \<noteq> []"
  by (induction rs arbitrary: s)
    (simp_all add: mapRules_Cons ruleScan_empty_iff del: mapRules.simps(2))

lemma filterNodes_id:
  "\<forall>n\<in>set nodes. n \<noteq> [] \<Longrightarrow> filterNodes nodes = nodes"
  by (simp add: filterNodes_def)

lemma mapRules_single:
  "mapRules eparts s [r] = ([addTerms (ruleScan eparts s r)], ruleScan eparts s r)"
  by (simp add: mapRules_Cons del: mapRules.simps(2))

lemma compileRules_keyframe:
  "compileRules True eparts [out] =
     (if exprVals (ruleScan eparts initialScan out) \<noteq> [] then Inl ComponentReferencesInKeyframes
      else if out = [] then Inl UnexpectedKeyframesCount
      else (case addUp (addTerms (ruleScan eparts initialScan out)) of
              Inl e \<Rightarrow> Inl e
            | Inr left \<Rightarrow> Inr \<lparr>tmpl = left, args = []\<rparr>))"
  by (simp add: compileRules_def mapRules_single selectShape_def keyframeShape_def filterNodes_def
      ruleScan_empty_iff del: mapRules.simps(2) split: sum.splits)


lemma transformTemplate_stages:
  assumes "traverseExtract t [] = Inr parts"
    and "compileCssString stylisInst autoprefixer [CLASS_MARKER] (combined parts) k = Inr out"
    and "splitRules out k = Inr rs"
  shows "transformTemplate stylisInst autoprefixer t k = compileRules k (exprParts parts) rs"
  using assms by (simp add: transformTemplate_def)

lemma transformTemplate_keyframe:
  assumes "traverseExtract t [] = Inr parts"
    and "compileCssString stylisInst autoprefixer [CLASS_MARKER] (combined parts) True = Inr out"
  shows "transformTemplate stylisInst autoprefixer t True = compileRules True (exprParts parts) [out]"
  using assms by (simp add: transformTemplate_def splitRules_def)

text \<open>
  Claim C7. A keyframe compilation that reaches the scan of the processed text and
  promotes a marker to a named argument slot (\<open>exprVals\<close> is not empty after the
  scan) fails with \<open>Did not expect component references in keyframes\<close>; a keyframe
  compilation that returns a result has promoted none, and returns no arguments.
\<close>

theorem keyframe_references_rejected:
  assumes "traverseExtract t [] = Inr parts"
    and "compileCssString stylisInst autoprefixer [CLASS_MARKER] (combined parts) True = Inr out"
  shows "(exprVals (snd (mapRules (exprParts parts) initialScan [out])) \<noteq> []
            \<longrightarrow> transformTemplate stylisInst autoprefixer t True = Inl ComponentReferencesInKeyframes)
       \<and> (\<forall>res. transformTemplate stylisInst autoprefixer t True = Inr res
            \<longrightarrow> exprVals (snd (mapRules (exprParts parts) initialScan [out])) = [] \<and> args res = [])
       \<and> message ComponentReferencesInKeyframes = ''Did not expect component references in keyframes''"
  using transformTemplate_keyframe [OF assms]
  by (auto simp: compileRules_keyframe mapRules_single simp del: mapRules.simps(2)
      split: if_splits sum.splits)

text \<open>
  Claim C10. In keyframe mode, when the term lists left by the filter are not exactly
  one, the compilation fails with \<open>Unexpected keyframes count\<close>, and a compilation
  that returns a result had exactly one left; a processed body without any term (the
  empty text) is discarded by the filter and the compilation fails in this way.
\<close>

theorem keyframe_count:
  assumes "traverseExtract t [] = Inr parts"
    and "compileCssString stylisInst autoprefixer [CLASS_MARKER] (combined parts) True = Inr out"
  shows "(length (filterNodes (fst (mapRules (exprParts parts) initialScan [out]))) \<noteq> 1
            \<longrightarrow> transformTemplate stylisInst autoprefixer t True = Inl UnexpectedKeyframesCount)
       \<and> (\<forall>res. transformTemplate stylisInst autoprefixer t True = Inr res
            \<longrightarrow> length (filterNodes (fst (mapRules (exprParts parts) initialScan [out]))) = 1)
       \<and> (out = [] \<longrightarrow> filterNodes (fst (mapRules (exprParts parts) initialScan [out])) = []
            \<and> transformTemplate stylisInst autoprefixer t True = Inl UnexpectedKeyframesCount)
       \<and> message UnexpectedKeyframesCount = ''Unexpected keyframes count''"
proof -
  have l: "length (filterNodes (fst (mapRules (exprParts parts) initialScan [out])))
            = (if out = [] then 0 else 1)"
    by (simp add: mapRules_single filterNodes_def ruleScan_empty_iff del: mapRules.simps(2))
  have e: "out = [] \<Longrightarrow> exprVals (ruleScan (exprParts parts) initialScan out) = []"
    by (simp add: ruleScan_Nil_slots initialScan_def)
  have f: "out = [] \<Longrightarrow> filterNodes (fst (mapRules (exprParts parts) initialScan [out])) = []"
    by (simp add: mapRules_single filterNodes_def ruleScan_Nil del: mapRules.simps(2))
  have t: "transformTemplate stylisInst autoprefixer t True
            = compileRules True (exprParts parts) [out]"
    by (rule transformTemplate_keyframe [OF assms])
  show ?thesis
    unfolding l t using e f
    by (auto simp: compileRules_keyframe simp del: mapRules.simps(2) split: if_splits sum.splits)
qed

text \<open>
  Against claim C9 as stated: the empty keyframe body is a block without terms, and the
  compilation of it does raise an error. (The preprocessor here returns its input.)
\<close>

theorem empty_keyframe_body_counterexample:
  "addTerms (ruleScan ([] :: string list) initialScan []) = []
   \<and> transformTemplate (\<lambda>context str. str) (\<lambda>str. str)
        (NoSubstitutionTemplateLiteral [] :: string tnode) True = Inl UnexpectedKeyframesCount"
  by (simp add: ruleScan_Nil transformTemplate_def compileCssString_def combined_def
      keyframesPrefix_def js_def lastChar_def closeBrace_def slice_def splitRules_def
      compileRules_keyframe ruleScan_Nil_slots initialScan_def)

text \<open>
  Claim C9, amended. A block produces no term exactly when it is empty. The term lists
  without terms are removed before the shape is chosen, and the shape is built from the
  filtered list. Outside keyframe mode the blocks of the splitter are never empty, so the
  filter removes nothing; in keyframe mode the filter removes something only when the
  processed body is empty, and the compilation then fails with
  \<open>Unexpected keyframes count\<close>.
\<close>

theorem empty_blocks_removed:
  "(addTerms (ruleScan eparts s r) = [] \<longleftrightarrow> r = [])
   \<and> filterNodes nodes = filter (\<lambda>arr. arr \<noteq> []) nodes
   \<and> compileRules k eparts rs
       = selectShape k rs (filterNodes (fst (mapRules eparts initialScan rs)))
           (snd (mapRules eparts initialScan rs))
   \<and> (splitRules out False = Inr rs
        \<longrightarrow> filterNodes (fst (mapRules eparts initialScan rs)) = fst (mapRules eparts initialScan rs))
   \<and> (splitRules out True = Inr rs
          \<and> filterNodes (fst (mapRules eparts initialScan rs)) \<noteq> fst (mapRules eparts initialScan rs)
        \<longrightarrow> out = [] \<and> compileRules True eparts rs = Inl UnexpectedKeyframesCount)"
proof -
  have a: "addTerms (ruleScan eparts s r) = [] \<longleftrightarrow> r = []" by (rule ruleScan_empty_iff)
  have b: "filterNodes nodes = filter (\<lambda>arr. arr \<noteq> []) nodes" by (simp add: filterNodes_def)
  have c: "compileRules k eparts rs
       = selectShape k rs (filterNodes (fst (mapRules eparts initialScan rs)))
           (snd (mapRules eparts initialScan rs))"
    by (simp add: compileRules_def split: prod.splits)
  have d: "splitRules out False = Inr rs
        \<Longrightarrow> filterNodes (fst (mapRules eparts initialScan rs)) = fst (mapRules eparts initialScan rs)"
    using splitRules_nonempty mapRules_nonempty filterNodes_id by blast
  have e: "splitRules out True = Inr rs
          \<and> filterNodes (fst (mapRules eparts initialScan rs)) \<noteq> fst (mapRules eparts initialScan rs)
        \<Longrightarrow> out = [] \<and> compileRules True eparts rs = Inl UnexpectedKeyframesCount"
  proof -
    assume h: "splitRules out True = Inr rs
          \<and> filterNodes (fst (mapRules eparts initialScan rs)) \<noteq> fst (mapRules eparts initialScan rs)"
    then have rs: "rs = [out]" by (simp add: splitRules_def)
    with h have o: "out = []"
      by (auto simp: mapRules_single filterNodes_def ruleScan_empty_iff simp del: mapRules.simps(2)
          split: if_splits)
    then have "exprVals (ruleScan eparts initialScan out) = []"
      by (simp add: ruleScan_Nil_slots initialScan_def)
    with o rs show ?thesis by (simp add: compileRules_keyframe)
  qed
  from a b c d e show ?thesis by blast
qed

theorem empty_blocks_removed_witness:
  "splitRules (js ''a{b}'') False = Inr [js ''a{b}'']
   \<and> filterNodes (fst (mapRules ([] :: string list) initialScan [js ''a{b}'']))
       = fst (mapRules [] initialScan [js ''a{b}''])
   \<and> splitRules [] True = Inr [[]]
   \<and> filterNodes (fst (mapRules ([] :: string list) initialScan [[]])) \<noteq> fst (mapRules [] initialScan [[]])
   \<and> compileRules True ([] :: string list) [[]] = Inl UnexpectedKeyframesCount"
proof -
  have a: "splitRules (js ''a{b}'') False = Inr [js ''a{b}'']"
    by (simp add: splitRules_def splitScan_def splitStep_def js_def openBrace_def closeBrace_def slice_def)
  have b: "splitRules [] True = Inr [[]]" by (simp add: splitRules_def)
  have c: "filterNodes (fst (mapRules ([] :: string list) initialScan [[]])) \<noteq> fst (mapRules [] initialScan [[]])"
    by (simp add: mapRules_single filterNodes_def ruleScan_Nil del: mapRules.simps(2))
  from empty_blocks_removed [of "[] :: string list" initialScan "[]" "[]" False "[js ''a{b}'']" "js ''a{b}''"] a
  have d: "filterNodes (fst (mapRules ([] :: string list) initialScan [js ''a{b}'']))
       = fst (mapRules [] initialScan [js ''a{b}''])" by blast
  from empty_blocks_removed [of "[] :: string list" initialScan "[]" "[]" True "[[]]" "[]"] b c
  have e: "compileRules True ([] :: string list) [[]] = Inl UnexpectedKeyframesCount" by blast
  from a b c d e show ?thesis by blast
qed

lemmas char_defs = js_def openBrace_def closeBrace_def atSign_def space_def dot_def
  CLASS_MARKER_def START_CODE_def fromCharCode_def charCodeAt0_def

lemmas scan_defs = ruleScan_def ruleChar_def stepPos_def add_def addAccum_def initialScan_def
  nodeOf_def exprFromChar_def animationRegex_def trim_def trimEnd_def isWhiteSpace_def
  endsWithIgnoreCase_def toLowerAscii_def Let_def

lemmas pipeline_defs = transformTemplate_def compileCssString_def combined_def keyframesPrefix_def
  lastChar_def slice_def splitRules_def splitScan_def splitStep_def

lemma ruleScan_selector_marker: "ruleScan [''pct''] initialScan (fromCharCode 231 # js ''{opacity:0;}'')
  = \<lparr>exprArgs = [ExprName 0], exprVals = [Some ''pct''], argsByCode = [(fromCharCode 231, ExprName 0)],
     addTerms = [StringLiteral (js ''.''), Identifier (ExprName 0), StringLiteral (js ''{opacity:0;}'')],
     accum = [], pos = NonePos\<rparr>"
  by (simp add: scan_defs char_defs)

theorem keyframe_references_rejected_witness:
  "traverseExtract (TemplateExpression (TemplateHead []) [TemplateSpan ''pct'' (TemplateTail (js ''{opacity:0;}''))]) []
     = Inr [Str [], Node ''pct'', Str (js ''{opacity:0;}'')]
   \<and> compileCssString (\<lambda>context str. str) (\<lambda>str. str) [CLASS_MARKER]
        (combined [Str [], Node ''pct'', Str (js ''{opacity:0;}'')]) True
     = Inr (fromCharCode 231 # js ''{opacity:0;}'')
   \<and> exprVals (snd (mapRules (exprParts [Str [], Node ''pct'', Str (js ''{opacity:0;}'')]) initialScan
        [fromCharCode 231 # js ''{opacity:0;}''])) \<noteq> []
   \<and> transformTemplate (\<lambda>context str. str) (\<lambda>str. str)
        (TemplateExpression (TemplateHead []) [TemplateSpan ''pct'' (TemplateTail (js ''{opacity:0;}''))]) True
     = Inl ComponentReferencesInKeyframes"
proof -
  have a: "traverseExtract (TemplateExpression (TemplateHead []) [TemplateSpan ''pct'' (TemplateTail (js ''{opacity:0;}''))]) []
     = Inr [Str [], Node ''pct'', Str (js ''{opacity:0;}'')]"
    by simp
  have b: "compileCssString (\<lambda>context str. str) (\<lambda>str. str) [CLASS_MARKER]
        (combined [Str [], Node ''pct'', Str (js ''{opacity:0;}'')]) True
     = Inr (fromCharCode 231 # js ''{opacity:0;}'')"
    by (simp add: pipeline_defs char_defs)
  have c: "exprVals (snd (mapRules (exprParts [Str [], Node ''pct'', Str (js ''{opacity:0;}'')]) initialScan
        [fromCharCode 231 # js ''{opacity:0;}''])) \<noteq> []"
    by (simp add: mapRules_single ruleScan_selector_marker del: mapRules.simps(2))
  from keyframe_references_rejected [OF a b] c
  have d: "transformTemplate (\<lambda>context str. str) (\<lambda>str. str)
        (TemplateExpression (TemplateHead []) [TemplateSpan ''pct'' (TemplateTail (js ''{opacity:0;}''))]) True
     = Inl ComponentReferencesInKeyframes" by blast
  from a b c d show ?thesis by blast
qed

theorem keyframe_count_witness:
  "traverseExtract (NoSubstitutionTemplateLiteral [] :: string tnode) [] = Inr [Str []]
   \<and> compileCssString (\<lambda>context str. str) (\<lambda>str. str) [CLASS_MARKER] (combined ([Str []] :: string part list)) True
     = Inr []
   \<and> length (filterNodes (fst (mapRules (exprParts ([Str []] :: string part list)) initialScan [[]]))) \<noteq> 1
   \<and> transformTemplate (\<lambda>context str. str) (\<lambda>str. str) (NoSubstitutionTemplateLiteral [] :: string tnode) True
     = Inl UnexpectedKeyframesCount"
proof -
  have a: "traverseExtract (NoSubstitutionTemplateLiteral [] :: string tnode) [] = Inr [Str []]"
    by simp
  have b: "compileCssString (\<lambda>context str. str) (\<lambda>str. str) [CLASS_MARKER] (combined ([Str []] :: string part list)) True
     = Inr []"
    by (simp add: pipeline_defs char_defs)
  have c: "length (filterNodes (fst (mapRules (exprParts ([Str []] :: string part list)) initialScan [[]]))) \<noteq> 1"
    by (simp add: mapRules_single filterNodes_def ruleScan_Nil del: mapRules.simps(2))
  from keyframe_count [OF a b] c
  have d: "transformTemplate (\<lambda>context str. str) (\<lambda>str. str) (NoSubstitutionTemplateLiteral [] :: string tnode) True
     = Inl UnexpectedKeyframesCount" by blast
  from a b c d show ?thesis by blast
qed

section \<open>Properties of the table of named slots\<close>

lemma marker_stepPos:
  assumes "c \<noteq> CLASS_MARKER" "START_CODE \<le> charCodeAt0 c"
  shows "stepPos p c = (if p = NonePos then ElementSelector else p)"
proof -
  have "c \<noteq> atSign" "c \<noteq> space" "c \<noteq> openBrace" "c \<noteq> closeBrace"
    using assms(2) by (auto simp: char_defs)
  then show ?thesis by (cases p) (simp_all add: stepPos_def)
qed

lemma ruleChar_plain:
  assumes "c = CLASS_MARKER \<or> charCodeAt0 c < START_CODE"
  shows "exprArgs (ruleChar eparts s c) = exprArgs s"
    and "exprVals (ruleChar eparts s c) = exprVals s"
    and "argsByCode (ruleChar eparts s c) = argsByCode s"
  using assms by (auto simp: ruleChar_def Let_def add_fields addAccum_fields)

lemma ruleChar_bound:
  assumes "c \<noteq> CLASS_MARKER" "START_CODE \<le> charCodeAt0 c" "map_of (argsByCode s) c = Some arg"
  shows "exprArgs (ruleChar eparts s c) = exprArgs s"
    and "exprVals (ruleChar eparts s c) = exprVals s"
    and "argsByCode (ruleChar eparts s c) = argsByCode s"
    and "addTerms (ruleChar eparts s c)
          = addTerms (addAccum (s\<lparr>accum := accum s @ (if stepPos (pos s) c = ElementSelector then [dot] else [])\<rparr>))
            @ [Identifier arg]"
  using assms by (simp_all add: ruleChar_def Let_def add_fields addAccum_fields)

lemma ruleChar_promoted:
  assumes "c \<noteq> CLASS_MARKER" "START_CODE \<le> charCodeAt0 c" "map_of (argsByCode s) c = None"
    and "stepPos (pos s) c = ElementSelector
         \<or> (stepPos (pos s) c = ElementRule \<and> animationRegex (trim (accum s)))"
  shows "exprArgs (ruleChar eparts s c) = exprArgs s @ [ExprName (length (exprArgs s))]"
    and "exprVals (ruleChar eparts s c) = exprVals s @ [exprFromChar eparts c]"
    and "argsByCode (ruleChar eparts s c) = argsByCode s @ [(c, ExprName (length (exprArgs s)))]"
    and "addTerms (ruleChar eparts s c)
          = addTerms (addAccum (s\<lparr>accum := accum s @ (if stepPos (pos s) c = ElementSelector then [dot] else [])\<rparr>))
            @ [Identifier (ExprName (length (exprArgs s)))]"
  using assms by (auto simp: ruleChar_def Let_def add_fields addAccum_fields)

lemma ruleChar_inline:
  assumes "c \<noteq> CLASS_MARKER" "START_CODE \<le> charCodeAt0 c" "map_of (argsByCode s) c = None"
    and "\<not> (stepPos (pos s) c = ElementSelector
         \<or> (stepPos (pos s) c = ElementRule \<and> animationRegex (trim (accum s))))"
  shows "exprArgs (ruleChar eparts s c) = exprArgs s"
    and "exprVals (ruleChar eparts s c) = exprVals s"
    and "argsByCode (ruleChar eparts s c) = argsByCode s"
    and "addTerms (ruleChar eparts s c) = addTerms (addAccum s) @ [nodeOf (exprFromChar eparts c)]"
  using assms by (auto simp: ruleChar_def Let_def add_fields addAccum_fields)

lemma ruleChar_cases:
  obtains (plain) "c = CLASS_MARKER \<or> charCodeAt0 c < START_CODE"
  | (bound) arg where "c \<noteq> CLASS_MARKER" "START_CODE \<le> charCodeAt0 c" "map_of (argsByCode s) c = Some arg"
  | (promoted) "c \<noteq> CLASS_MARKER" "START_CODE \<le> charCodeAt0 c" "map_of (argsByCode s) c = None"
      "stepPos (pos s) c = ElementSelector \<or> (stepPos (pos s) c = ElementRule \<and> animationRegex (trim (accum s)))"
  | (inline) "c \<noteq> CLASS_MARKER" "START_CODE \<le> charCodeAt0 c" "map_of (argsByCode s) c = None"
      "\<not> (stepPos (pos s) c = ElementSelector \<or> (stepPos (pos s) c = ElementRule \<and> animationRegex (trim (accum s))))"
  by (cases "map_of (argsByCode s) c") force+

lemma slotTable_ruleChar:
  assumes "slotTable eparts s"
  shows "slotTable eparts (ruleChar eparts s c)"
proof (cases rule: ruleChar_cases [where c=c and s=s])
  case plain
  with assms show ?thesis by (simp add: slotTable_def ruleChar_plain)
next
  case (bound arg)
  with assms show ?thesis by (simp add: slotTable_def ruleChar_bound)
next
  case promoted
  from promoted(3) have "c \<notin> fst ` set (argsByCode s)"
    by (simp add: map_of_eq_None_iff)
  moreover from assms have "length (exprArgs s) = length (argsByCode s)"
    by (simp add: slotTable_def)
  ultimately show ?thesis
    using assms promoted by (simp add: slotTable_def ruleChar_promoted)
next
  case inline
  with assms show ?thesis by (simp add: slotTable_def ruleChar_inline)
qed

lemma argsByCode_ruleChar:
  "\<exists>more. argsByCode (ruleChar eparts s c) = argsByCode s @ more"
  by (cases rule: ruleChar_cases [where c=c and s=s])
    (simp_all add: ruleChar_plain ruleChar_bound ruleChar_promoted ruleChar_inline)

lemma slotTable_foldl:
  "slotTable eparts s \<Longrightarrow> slotTable eparts (foldl (ruleChar eparts) s r)"
  by (induction r arbitrary: s) (simp_all add: slotTable_ruleChar)

lemma argsByCode_foldl:
  "\<exists>more. argsByCode (foldl (ruleChar eparts) s r) = argsByCode s @ more"
proof (induction r arbitrary: s)
  case Nil
  then show ?case by simp
next
  case (Cons c r)
  from argsByCode_ruleChar obtain m1 where "argsByCode (ruleChar eparts s c) = argsByCode s @ m1"
    by blast
  moreover from Cons obtain m2 where
    "argsByCode (foldl (ruleChar eparts) (ruleChar eparts s c) r) = argsByCode (ruleChar eparts s c) @ m2"
    by blast
  ultimately show ?case by simp
qed

lemma slotTable_ruleScan: "slotTable eparts s \<Longrightarrow> slotTable eparts (ruleScan eparts s r)"
proof -
  assume "slotTable eparts s"
  then have "slotTable eparts (s\<lparr>addTerms := [], accum := [], pos := NonePos\<rparr>)"
    by (simp add: slotTable_def)
  then have "slotTable eparts (foldl (ruleChar eparts) (s\<lparr>addTerms := [], accum := [], pos := NonePos\<rparr>) r)"
    by (rule slotTable_foldl)
  then show ?thesis by (simp add: ruleScan_def slotTable_def addAccum_fields)
qed

lemma argsByCode_ruleScan: "\<exists>more. argsByCode (ruleScan eparts s r) = argsByCode s @ more"
  using argsByCode_foldl [of eparts "s\<lparr>addTerms := [], accum := [], pos := NonePos\<rparr>" r]
  by (simp add: ruleScan_def addAccum_fields)

lemma slotTable_mapRules: "slotTable eparts s \<Longrightarrow> slotTable eparts (snd (mapRules eparts s rs))"
  by (induction rs arbitrary: s) (simp_all add: mapRules_Cons slotTable_ruleScan del: mapRules.simps(2))

lemma argsByCode_mapRules: "\<exists>more. argsByCode (snd (mapRules eparts s rs)) = argsByCode s @ more"
proof (induction rs arbitrary: s)
  case Nil
  then show ?case by simp
next
  case (Cons r rs)
  from argsByCode_ruleScan obtain m1 where "argsByCode (ruleScan eparts s r) = argsByCode s @ m1"
    by blast
  moreover from Cons obtain m2 where
    "argsByCode (snd (mapRules eparts (ruleScan eparts s r) rs)) = argsByCode (ruleScan eparts s r) @ m2"
    by blast
  ultimately show ?case by (simp add: mapRules_Cons del: mapRules.simps(2))
qed

lemma mapRules_append:
  "mapRules eparts s (rs @ rs') =
     (fst (mapRules eparts s rs) @ fst (mapRules eparts (snd (mapRules eparts s rs)) rs'),
      snd (mapRules eparts (snd (mapRules eparts s rs)) rs'))"
  by (induction rs arbitrary: s) (simp_all add: mapRules_Cons del: mapRules.simps(2))

lemma slotTable_initial: "slotTable eparts initialScan"
  by (simp add: slotTable_def initialScan_def)

section \<open>Properties of the shape optimizer\<close>

lemma lastIndexFrom_absent: "c \<notin> set xs \<Longrightarrow> lastIndexFrom c xs i found = found"
  by (induction xs arbitrary: i found) auto

lemma lastIndexFrom_present: "c \<in> set xs \<Longrightarrow> int i \<le> lastIndexFrom c xs i found"
proof (induction xs arbitrary: i found)
  case Nil
  then show ?case by simp
next
  case (Cons x xs)
  show ?case
  proof (cases "c \<in> set xs")
    case True
    then have "int (i + 1) \<le> lastIndexFrom c xs (i + 1) (if x = c then int i else found)"
      by (rule Cons.IH)
    then show ?thesis by simp
  next
    case False
    with Cons.prems have "x = c" by simp
    with False show ?thesis by (simp add: lastIndexFrom_absent)
  qed
qed

lemma simple_rule_iff:
  "charAt r 0 = Some c \<and> lastIndexOf r c = 0 \<longleftrightarrow> (\<exists>r'. r = c # r' \<and> c \<notin> set r')"
proof (cases r)
  case Nil
  then show ?thesis by (simp add: charAt_def)
next
  case (Cons x xs)
  show ?thesis
  proof (cases "c \<in> set xs")
    case True
    from lastIndexFrom_present [OF True, of 1 "if x = c then 0 else - 1"]
    have "lastIndexOf r c \<noteq> 0" by (cases "x = c") (simp_all add: lastIndexOf_def Cons)
    with True Cons show ?thesis by auto
  next
    case False
    then show ?thesis
      by (auto simp: Cons charAt_def lastIndexOf_def lastIndexFrom_absent)
  qed
qed

lemma simpleScan_all:
  "fst (simpleScan rs b) \<longleftrightarrow> (\<forall>r\<in>set rs. \<exists>r'. r = CLASS_MARKER # r' \<and> CLASS_MARKER \<notin> set r')"
proof (induction rs arbitrary: b)
  case Nil
  then show ?case by simp
next
  case (Cons r rs)
  show ?case
    using Cons.IH simple_rule_iff [of r CLASS_MARKER] by auto
qed

lemma addUpFrom_closed:
  "addUpFrom left xs =
     (if (left = Undefined \<and> xs \<noteq> []) \<or> Undefined \<in> set xs then Inl TypeError
      else Inr (foldl Add left xs))"
  by (induction xs arbitrary: left) (auto simp: createAdd_def)

lemma addUp_closed:
  "addUp arr =
     (if 2 \<le> length arr \<and> Undefined \<in> set arr then Inl TypeError else Inr (termSum arr))"
proof (cases arr)
  case Nil
  then show ?thesis by (simp add: addUp_def termSum_def)
next
  case (Cons x xs)
  then show ?thesis
    by (cases xs) (auto simp: addUp_def termSum_def addUpFrom_closed)
qed

lemma addUpRules_closed:
  "addUpRules nodes =
     (if \<exists>arr\<in>set nodes. 2 \<le> length arr \<and> Undefined \<in> set arr then Inl TypeError
      else Inr (map termSum nodes))"
  by (induction nodes) (auto simp: addUp_closed)

lemma ruleChar_defined:
  assumes "isExprMarker c \<longrightarrow> exprFromChar eparts c \<noteq> None"
    and "Undefined \<notin> set (addTerms s)"
  shows "Undefined \<notin> set (addTerms (ruleChar eparts s c))"
  using assms
  by (auto simp: ruleChar_def Let_def add_fields addAccum_fields nodeOf_def isExprMarker_def
      split: option.splits)

lemma foldl_ruleChar_defined:
  "\<forall>c\<in>set r. isExprMarker c \<longrightarrow> exprFromChar eparts c \<noteq> None \<Longrightarrow>
   Undefined \<notin> set (addTerms s) \<Longrightarrow>
   Undefined \<notin> set (addTerms (foldl (ruleChar eparts) s r))"
proof (induction r arbitrary: s)
  case Nil
  then show ?case by simp
next
  case (Cons c r)
  from Cons.prems have "Undefined \<notin> set (addTerms (ruleChar eparts s c))"
    by (intro ruleChar_defined) simp_all
  with Cons show ?case by simp
qed

lemma ruleScan_defined:
  assumes "\<forall>c\<in>set r. isExprMarker c \<longrightarrow> exprFromChar eparts c \<noteq> None"
  shows "Undefined \<notin> set (addTerms (ruleScan eparts s r))"
proof -
  have "Undefined \<notin> set (addTerms (foldl (ruleChar eparts)
          (s\<lparr>addTerms := [], accum := [], pos := NonePos\<rparr>) r))"
    using assms by (intro foldl_ruleChar_defined) simp_all
  then show ?thesis by (simp add: ruleScan_def addAccum_fields)
qed

lemma mapRules_defined:
  "\<forall>r\<in>set rs. \<forall>c\<in>set r. isExprMarker c \<longrightarrow> exprFromChar eparts c \<noteq> None \<Longrightarrow>
   \<forall>arr\<in>set (fst (mapRules eparts s rs)). Undefined \<notin> set arr"
  by (induction rs arbitrary: s)
    (simp_all add: mapRules_Cons ruleScan_defined del: mapRules.simps(2))

lemma splitRules_concat: "splitRules out False = Inr rs \<Longrightarrow> concat rs = out"
  using splitScan_concat [of out] by (auto simp: splitRules_def Let_def split: if_splits)

lemma transformTemplate_nodes:
  assumes "traverseExtract t [] = Inr parts"
    and "compileCssString stylisInst autoprefixer [CLASS_MARKER] (combined parts) False = Inr out"
    and "splitRules out False = Inr rs"
  shows "transformTemplate stylisInst autoprefixer t False
           = selectShape False rs (fst (mapRules (exprParts parts) initialScan rs))
               (snd (mapRules (exprParts parts) initialScan rs))"
proof -
  let ?m = "mapRules (exprParts parts) initialScan rs"
  have f: "filterNodes (fst ?m) = fst ?m"
    using splitRules_nonempty [OF assms(3)] mapRules_nonempty filterNodes_id by blast
  show ?thesis
    using transformTemplate_stages [OF assms] f
    by (simp add: compileRules_def split: prod.splits)
qed

lemma functionalShape_closed:
  "functionalShape nodes s =
     (if \<exists>arr\<in>set nodes. 2 \<le> length arr \<and> Undefined \<in> set arr then Inl TypeError
      else Inr \<lparr>tmpl = ArrowFunction (ClsName # exprArgs s) (ArrayLiteral (map termSum nodes)),
                args = exprVals s\<rparr>)"
  by (simp add: functionalShape_def addUpRules_closed)




section \<open>Interning of the named slots\<close>

lemma pos_ruleChar: "pos (ruleChar eparts s c) = stepPos (pos s) c"
  by (simp add: ruleChar_def Let_def add_fields addAccum_fields split: option.splits)

lemma accum_ruleChar:
  "accum (ruleChar eparts s c)
     = (if c = CLASS_MARKER \<or> START_CODE \<le> charCodeAt0 c then [] else accum s @ [c])"
  by (simp add: ruleChar_def Let_def add_fields addAccum_fields split: option.splits)

lemma map_of_bound: "map_of xs c = Some a \<Longrightarrow> c \<in> set (map fst xs)"
  by (metis map_of_eq_None_iff option.distinct(1) set_map)

lemma map_of_unbound: "map_of xs c = None \<Longrightarrow> c \<notin> set (map fst xs)"
  by (simp add: map_of_eq_None_iff)

lemma codes_ruleChar:
  "map fst (argsByCode (ruleChar eparts s c))
     = (if isExprMarker c
           \<and> (stepPos (pos s) c = ElementSelector
                \<or> (stepPos (pos s) c = ElementRule \<and> animationRegex (trim (accum s))))
        then spec_intern (map fst (argsByCode s)) c
        else map fst (argsByCode s))"
proof (cases rule: ruleChar_cases [where c=c and s=s])
  case plain
  then show ?thesis by (auto simp: ruleChar_plain isExprMarker_def)
next
  case (bound arg)
  from bound(3) have "c \<in> set (map fst (argsByCode s))" by (rule map_of_bound)
  with bound show ?thesis by (simp add: ruleChar_bound spec_intern_def)
next
  case promoted
  from promoted(3) have "c \<notin> set (map fst (argsByCode s))" by (rule map_of_unbound)
  with promoted show ?thesis by (simp add: ruleChar_promoted spec_intern_def isExprMarker_def)
next
  case inline
  then show ?thesis by (auto simp: ruleChar_inline isExprMarker_def)
qed

lemma codes_foldl:
  "map fst (argsByCode (foldl (ruleChar eparts) s r))
     = foldl spec_intern (map fst (argsByCode s)) (spec_promoted (pos s) (accum s) r)"
proof (induction r arbitrary: s)
  case Nil
  then show ?case by simp
next
  case (Cons c r)
  have "map fst (argsByCode (foldl (ruleChar eparts) s (c # r)))
      = foldl spec_intern (map fst (argsByCode (ruleChar eparts s c)))
          (spec_promoted (stepPos (pos s) c) (accum (ruleChar eparts s c)) r)"
    using Cons.IH [of "ruleChar eparts s c"] by (simp add: pos_ruleChar)
  then show ?case
    by (simp add: codes_ruleChar accum_ruleChar isExprMarker_def)
qed

lemma codes_ruleScan:
  "map fst (argsByCode (ruleScan eparts s r))
     = foldl spec_intern (map fst (argsByCode s)) (spec_promoted NonePos [] r)"
  using codes_foldl [of eparts "s\<lparr>addTerms := [], accum := [], pos := NonePos\<rparr>" r]
  by (simp add: ruleScan_def addAccum_fields)

lemma codes_mapRules:
  "map fst (argsByCode (snd (mapRules eparts s rs)))
     = foldl spec_intern (map fst (argsByCode s)) (concat (map (spec_promoted NonePos []) rs))"
  by (induction rs arbitrary: s)
    (simp_all add: mapRules_Cons codes_ruleScan del: mapRules.simps(2))

lemma codes_final:
  "map fst (argsByCode (snd (mapRules eparts initialScan rs))) = spec_slots rs"
  by (simp add: codes_mapRules spec_slots_def initialScan_def)

lemma set_foldl_intern: "set (foldl spec_intern codes ps) = set codes \<union> set ps"
  by (induction ps arbitrary: codes) (auto simp: spec_intern_def)

lemma foldl_intern_extends: "\<exists>more. foldl spec_intern codes ps = codes @ more"
proof (induction ps arbitrary: codes)
  case Nil
  then show ?case by simp
next
  case (Cons p ps)
  have "\<exists>m1. spec_intern codes p = codes @ m1" by (simp add: spec_intern_def)
  then obtain m1 where "spec_intern codes p = codes @ m1" by blast
  moreover from Cons obtain m2 where
    "foldl spec_intern (spec_intern codes p) ps = spec_intern codes p @ m2" by blast
  ultimately show ?case by simp
qed

lemma slot_table_final:
  "distinct (spec_slots rs)
   \<and> exprArgs (snd (mapRules ep initialScan rs)) = map ExprName [0..<length (spec_slots rs)]
   \<and> map snd (argsByCode (snd (mapRules ep initialScan rs)))
       = exprArgs (snd (mapRules ep initialScan rs))
   \<and> exprVals (snd (mapRules ep initialScan rs)) = map (exprFromChar ep) (spec_slots rs)"
proof -
  have c: "map fst (argsByCode (snd (mapRules ep initialScan rs))) = spec_slots rs"
    by (rule codes_final)
  then have l: "length (argsByCode (snd (mapRules ep initialScan rs))) = length (spec_slots rs)"
    by (metis length_map)
  have "slotTable ep (snd (mapRules ep initialScan rs))"
    by (rule slotTable_mapRules [OF slotTable_initial])
  then show ?thesis
    unfolding slotTable_def c [symmetric] l [symmetric] by (simp add: comp_def)
qed

text \<open>
  Claim C6. A marker that is bound in \<open>argsByCode\<close> adds the identifier bound to it
  and leaves \<open>exprArgs\<close>, \<open>exprVals\<close> and \<open>argsByCode\<close> as they are. After the
  scan of the rules the bound code units are exactly the distinct promoted markers of the
  rule blocks, in the order in which they are first promoted, and further rules only
  append to them; the slots are \<open>expr0\<close>, \<open>expr1\<close>, ... in this order, each bound
  code unit maps to its slot, and the values are those of the bound code units in the same
  order. A compilation that takes the functional branch, with every marker decodable,
  returns the arrow function with the parameters \<open>cls\<close> followed by these slots, and
  these values as the arguments.
\<close>

theorem named_slots_interned:
  "(isExprMarker c \<and> map_of (argsByCode s) c = Some arg
      \<longrightarrow> exprArgs (ruleChar eparts s c) = exprArgs s
        \<and> exprVals (ruleChar eparts s c) = exprVals s
        \<and> argsByCode (ruleChar eparts s c) = argsByCode s
        \<and> last (addTerms (ruleChar eparts s c)) = Identifier arg)
   \<and> map fst (argsByCode (snd (mapRules eparts initialScan rs))) = spec_slots rs
   \<and> distinct (spec_slots rs)
   \<and> set (spec_slots rs) = set (concat (map (spec_promoted NonePos []) rs))
   \<and> (\<exists>more. spec_slots (rs @ rs') = spec_slots rs @ more)
   \<and> exprArgs (snd (mapRules eparts initialScan rs)) = map ExprName [0..<length (spec_slots rs)]
   \<and> exprVals (snd (mapRules eparts initialScan rs)) = map (exprFromChar eparts) (spec_slots rs)
   \<and> (\<forall>i<length (spec_slots rs).
        map_of (argsByCode (snd (mapRules eparts initialScan rs))) (spec_slots rs ! i)
          = Some (ExprName i))
   \<and> (traverseExtract t [] = Inr parts
        \<and> compileCssString stylisInst autoprefixer [CLASS_MARKER] (combined parts) False = Inr out
        \<and> splitRules out False = Inr rs
        \<and> (spec_slots rs \<noteq> []
             \<or> (\<exists>r\<in>set rs. \<not> (\<exists>r'. r = CLASS_MARKER # r' \<and> CLASS_MARKER \<notin> set r')))
        \<and> (\<forall>c\<in>set out. isExprMarker c \<longrightarrow> exprFromChar (exprParts parts) c \<noteq> None)
      \<longrightarrow> transformTemplate stylisInst autoprefixer t False
           = Inr \<lparr>tmpl = ArrowFunction (ClsName # map ExprName [0..<length (spec_slots rs)])
                          (ArrayLiteral (map termSum (fst (mapRules (exprParts parts) initialScan rs)))),
                  args = map (exprFromChar (exprParts parts)) (spec_slots rs)\<rparr>)"
proof -
  let ?final = "snd (mapRules eparts initialScan rs)"
  have reuse: "isExprMarker c \<and> map_of (argsByCode s) c = Some arg
      \<longrightarrow> exprArgs (ruleChar eparts s c) = exprArgs s
        \<and> exprVals (ruleChar eparts s c) = exprVals s
        \<and> argsByCode (ruleChar eparts s c) = argsByCode s
        \<and> last (addTerms (ruleChar eparts s c)) = Identifier arg"
    by (simp add: ruleChar_bound isExprMarker_def)
  have codes: "map fst (argsByCode ?final) = spec_slots rs" by (rule codes_final)
  from slot_table_final [of rs eparts] have d: "distinct (spec_slots rs)"
    and a: "exprArgs ?final = map ExprName [0..<length (spec_slots rs)]"
    and sn: "map snd (argsByCode ?final) = exprArgs ?final"
    and v: "exprVals ?final = map (exprFromChar eparts) (spec_slots rs)"
    by blast+
  have st: "set (spec_slots rs) = set (concat (map (spec_promoted NonePos []) rs))"
    unfolding spec_slots_def set_foldl_intern by simp
  have ext: "\<exists>more. spec_slots (rs @ rs') = spec_slots rs @ more"
    unfolding spec_slots_def using foldl_intern_extends
    by (simp add: foldl_intern_extends)
  have l: "\<forall>i<length (spec_slots rs).
        map_of (argsByCode ?final) (spec_slots rs ! i) = Some (ExprName i)"
  proof (intro allI impI)
    fix i assume i: "i < length (spec_slots rs)"
    then have i': "i < length (argsByCode ?final)" using codes by (metis length_map)
    then have "snd (argsByCode ?final ! i) = map snd (argsByCode ?final) ! i" by simp
    also have "\<dots> = ExprName i" using i unfolding sn a by simp
    finally have "argsByCode ?final ! i = (spec_slots rs ! i, ExprName i)"
      using i' codes by (metis nth_map prod.collapse)
    then have "(spec_slots rs ! i, ExprName i) \<in> set (argsByCode ?final)"
      using i' by (metis nth_mem)
    moreover have "distinct (map fst (argsByCode ?final))" using d codes by simp
    ultimately show "map_of (argsByCode ?final) (spec_slots rs ! i) = Some (ExprName i)"
      by simp
  qed
  have f: "traverseExtract t [] = Inr parts
        \<and> compileCssString stylisInst autoprefixer [CLASS_MARKER] (combined parts) False = Inr out
        \<and> splitRules out False = Inr rs
        \<and> (spec_slots rs \<noteq> []
             \<or> (\<exists>r\<in>set rs. \<not> (\<exists>r'. r = CLASS_MARKER # r' \<and> CLASS_MARKER \<notin> set r')))
        \<and> (\<forall>c\<in>set out. isExprMarker c \<longrightarrow> exprFromChar (exprParts parts) c \<noteq> None)
      \<longrightarrow> transformTemplate stylisInst autoprefixer t False
           = Inr \<lparr>tmpl = ArrowFunction (ClsName # map ExprName [0..<length (spec_slots rs)])
                          (ArrayLiteral (map termSum (fst (mapRules (exprParts parts) initialScan rs)))),
                  args = map (exprFromChar (exprParts parts)) (spec_slots rs)\<rparr>"
  proof
    let ?m = "mapRules (exprParts parts) initialScan rs"
    assume h: "traverseExtract t [] = Inr parts
        \<and> compileCssString stylisInst autoprefixer [CLASS_MARKER] (combined parts) False = Inr out
        \<and> splitRules out False = Inr rs
        \<and> (spec_slots rs \<noteq> []
             \<or> (\<exists>r\<in>set rs. \<not> (\<exists>r'. r = CLASS_MARKER # r' \<and> CLASS_MARKER \<notin> set r')))
        \<and> (\<forall>c\<in>set out. isExprMarker c \<longrightarrow> exprFromChar (exprParts parts) c \<noteq> None)"
    then have t: "transformTemplate stylisInst autoprefixer t False
            = selectShape False rs (fst ?m) (snd ?m)"
      using transformTemplate_nodes by blast
    from slot_table_final [of rs "exprParts parts"]
    have a': "exprArgs (snd ?m) = map ExprName [0..<length (spec_slots rs)]"
      and v': "exprVals (snd ?m) = map (exprFromChar (exprParts parts)) (spec_slots rs)"
      by blast+
    from h have sr: "splitRules out False = Inr rs" by blast
    have "\<forall>r\<in>set rs. \<forall>c\<in>set r. isExprMarker c \<longrightarrow> exprFromChar (exprParts parts) c \<noteq> None"
    proof (intro ballI)
      fix r c assume "r \<in> set rs" "c \<in> set r"
      then have "c \<in> set (concat rs)" by auto
      with h splitRules_concat [OF sr]
      show "isExprMarker c \<longrightarrow> exprFromChar (exprParts parts) c \<noteq> None" by simp
    qed
    then have nd: "\<forall>arr\<in>set (fst ?m). Undefined \<notin> set arr" by (rule mapRules_defined)
    from h have cond: "exprVals (snd ?m) \<noteq> [] \<or> \<not> fst (simpleScan rs True)"
      unfolding v' simpleScan_all by auto
    then have "selectShape False rs (fst ?m) (snd ?m) = functionalShape (fst ?m) (snd ?m)"
      by (auto simp: selectShape_def)
    also have "\<dots> = Inr \<lparr>tmpl = ArrowFunction (ClsName # exprArgs (snd ?m))
                          (ArrayLiteral (map termSum (fst ?m))),
                  args = exprVals (snd ?m)\<rparr>"
      using nd by (auto simp: functionalShape_closed)
    finally show "transformTemplate stylisInst autoprefixer t False
           = Inr \<lparr>tmpl = ArrowFunction (ClsName # map ExprName [0..<length (spec_slots rs)])
                          (ArrayLiteral (map termSum (fst ?m))),
                  args = map (exprFromChar (exprParts parts)) (spec_slots rs)\<rparr>"
      unfolding t a' v' .
  qed
  from reuse codes d st ext a v l f show ?thesis by blast
qed

theorem named_slots_interned_witness:
  "isExprMarker (fromCharCode 231)
   \<and> map_of (argsByCode \<lparr>exprArgs = [ExprName 0], exprVals = [Some ''Link''],
         argsByCode = [(fromCharCode 231, ExprName 0)], addTerms = [], accum = [], pos = NonePos\<rparr>)
        (fromCharCode 231) = Some (ExprName 0)
   \<and> argsByCode (ruleChar [''Link''] \<lparr>exprArgs = [ExprName 0], exprVals = [Some ''Link''],
         argsByCode = [(fromCharCode 231, ExprName 0)], addTerms = [], accum = [], pos = NonePos\<rparr>
         (fromCharCode 231))
       = argsByCode \<lparr>exprArgs = [ExprName 0], exprVals = [Some ''Link''],
         argsByCode = [(fromCharCode 231, ExprName 0)], addTerms = [], accum = [], pos = NonePos\<rparr>
   \<and> last (addTerms (ruleChar [''Link''] \<lparr>exprArgs = [ExprName 0], exprVals = [Some ''Link''],
         argsByCode = [(fromCharCode 231, ExprName 0)], addTerms = [], accum = [], pos = NonePos\<rparr>
         (fromCharCode 231))) = Identifier (ExprName 0)
   \<and> traverseExtract (TemplateExpression (TemplateHead [])
         [TemplateSpan ''Link'' (TemplateTail (js ''{a}''))]) []
       = Inr [Str [], Node ''Link'', Str (js ''{a}'')]
   \<and> compileCssString (\<lambda>context str. str) (\<lambda>str. str @ str) [CLASS_MARKER]
         (combined [Str [], Node ''Link'', Str (js ''{a}'')]) False
       = Inr (fromCharCode 231 # js ''{a}'' @ fromCharCode 231 # js ''{a}'')
   \<and> splitRules (fromCharCode 231 # js ''{a}'' @ fromCharCode 231 # js ''{a}'') False
       = Inr [fromCharCode 231 # js ''{a}'', fromCharCode 231 # js ''{a}'']
   \<and> spec_slots [fromCharCode 231 # js ''{a}'', fromCharCode 231 # js ''{a}''] = [fromCharCode 231]
   \<and> transformTemplate (\<lambda>context str. str) (\<lambda>str. str @ str)
         (TemplateExpression (TemplateHead []) [TemplateSpan ''Link'' (TemplateTail (js ''{a}''))]) False
       = Inr \<lparr>tmpl = ArrowFunction [ClsName, ExprName 0]
                 (ArrayLiteral
                   [Add (Add (StringLiteral (js ''.'')) (Identifier (ExprName 0))) (StringLiteral (js ''{a}'')),
                    Add (Add (StringLiteral (js ''.'')) (Identifier (ExprName 0))) (StringLiteral (js ''{a}''))]),
              args = [Some ''Link'']\<rparr>"
proof -
  let ?s = "\<lparr>exprArgs = [ExprName 0], exprVals = [Some ''Link''],
         argsByCode = [(fromCharCode 231, ExprName 0)], addTerms = [], accum = [], pos = NonePos\<rparr>"
  let ?t = "TemplateExpression (TemplateHead []) [TemplateSpan ''Link'' (TemplateTail (js ''{a}''))]"
  let ?parts = "[Str [], Node ''Link'', Str (js ''{a}'')]"
  let ?out = "fromCharCode 231 # js ''{a}'' @ fromCharCode 231 # js ''{a}''"
  let ?rs = "[fromCharCode 231 # js ''{a}'', fromCharCode 231 # js ''{a}'']"
  let ?terms = "[StringLiteral (js ''.''), Identifier (ExprName 0), StringLiteral (js ''{a}'')]"
  have h1: "isExprMarker (fromCharCode 231)" by (simp add: isExprMarker_def char_defs)
  have h3: "map_of (argsByCode ?s) (fromCharCode 231) = Some (ExprName 0)" by simp
  have a: "traverseExtract ?t [] = Inr ?parts" by simp
  have b: "compileCssString (\<lambda>context str. str) (\<lambda>str. str @ str) [CLASS_MARKER]
         (combined ?parts) False = Inr ?out"
    by (simp add: pipeline_defs char_defs)
  have c: "splitRules ?out False = Inr ?rs"
    by (simp add: pipeline_defs char_defs)
  have sl: "spec_slots ?rs = [fromCharCode 231]"
    by (simp add: spec_slots_def spec_intern_def stepPos_def char_defs)
  have dec: "\<forall>c\<in>set ?out. isExprMarker c \<longrightarrow> exprFromChar (exprParts ?parts) c \<noteq> None"
    by (simp add: isExprMarker_def exprFromChar_def char_defs)
  have d1: "ruleScan [''Link''] initialScan (fromCharCode 231 # js ''{a}'')
     = \<lparr>exprArgs = [ExprName 0], exprVals = [Some ''Link''],
        argsByCode = [(fromCharCode 231, ExprName 0)],
        addTerms = ?terms, accum = [], pos = NonePos\<rparr>"
    by (simp add: scan_defs char_defs)
  have d2: "ruleScan [''Link''] \<lparr>exprArgs = [ExprName 0], exprVals = [Some ''Link''],
        argsByCode = [(fromCharCode 231, ExprName 0)],
        addTerms = ?terms, accum = [], pos = NonePos\<rparr> (fromCharCode 231 # js ''{a}'')
     = \<lparr>exprArgs = [ExprName 0], exprVals = [Some ''Link''],
        argsByCode = [(fromCharCode 231, ExprName 0)],
        addTerms = ?terms, accum = [], pos = NonePos\<rparr>"
    by (simp add: scan_defs char_defs)
  have m: "fst (mapRules (exprParts ?parts) initialScan ?rs) = [?terms, ?terms]"
    by (simp add: mapRules_Cons d1 d2 del: mapRules.simps(2))
  note t = named_slots_interned [of "fromCharCode 231" ?s "ExprName 0" "[''Link'']" ?rs "[]"
      ?t ?parts "\<lambda>context str. str" "\<lambda>str. str @ str" ?out]
  from t h1 h3 have r1: "argsByCode (ruleChar [''Link''] ?s (fromCharCode 231)) = argsByCode ?s"
    by blast
  from t h1 h3 have r2: "last (addTerms (ruleChar [''Link''] ?s (fromCharCode 231))) = Identifier (ExprName 0)"
    by blast
  have ne: "spec_slots ?rs \<noteq> []" unfolding sl by simp
  from t a b c ne dec
  have "transformTemplate (\<lambda>context str. str) (\<lambda>str. str @ str) ?t False
           = Inr \<lparr>tmpl = ArrowFunction (ClsName # map ExprName [0..<length (spec_slots ?rs)])
                          (ArrayLiteral (map termSum (fst (mapRules (exprParts ?parts) initialScan ?rs)))),
                  args = map (exprFromChar (exprParts ?parts)) (spec_slots ?rs)\<rparr>"
    by blast
  then have r3: "transformTemplate (\<lambda>context str. str) (\<lambda>str. str @ str) ?t False
       = Inr \<lparr>tmpl = ArrowFunction [ClsName, ExprName 0]
                 (ArrayLiteral
                   [Add (Add (StringLiteral (js ''.'')) (Identifier (ExprName 0))) (StringLiteral (js ''{a}'')),
                    Add (Add (StringLiteral (js ''.'')) (Identifier (ExprName 0))) (StringLiteral (js ''{a}''))]),
              args = [Some ''Link'']\<rparr>"
    unfolding m sl by (simp add: termSum_def exprFromChar_def char_defs)
  from h1 h3 r1 r2 a b c sl r3 show ?thesis by blast
qed

section \<open>Promotion of markers in the declaration body\<close>

lemma trimEnd_id:"v = [] \<or> \<not> isWhiteSpace (last v) \<Longrightarrow> trimEnd v = v"
proof (cases "v = []")
  case True
  then show ?thesis by (simp add: trimEnd_def)
next
  case False
  assume "v = [] \<or> \<not> isWhiteSpace (last v)"
  with False have "\<not> isWhiteSpace (hd (rev v))" by (simp add: hd_rev)
  with False have "dropWhile isWhiteSpace (rev v) = rev v"
    by (cases "rev v") simp_all
  then show ?thesis by (simp add: trimEnd_def)
qed

lemma trimEnd_last: "trimEnd a = [] \<or> \<not> isWhiteSpace (last (trimEnd a))"
proof (cases "dropWhile isWhiteSpace (rev a) = []")
  case True
  then show ?thesis by (simp add: trimEnd_def)
next
  case False
  then have "\<not> isWhiteSpace (hd (dropWhile isWhiteSpace (rev a)))"
    by (rule hd_dropWhile)
  with False show ?thesis by (simp add: trimEnd_def last_rev)
qed

lemma trim_last: "trim a = [] \<or> \<not> isWhiteSpace (last (trim a))"
proof (cases "trim a = []")
  case True
  then show ?thesis by simp
next
  case False
  let ?u = "trimEnd a"
  from False have n: "length (takeWhile isWhiteSpace ?u) < length ?u"
    unfolding trim_def dropWhile_eq_drop by simp
  then have "last (trim a) = last ?u"
    unfolding trim_def dropWhile_eq_drop by (rule last_drop)
  moreover from n have "?u \<noteq> []" by auto
  ultimately show ?thesis using trimEnd_last [of a] by simp
qed

lemma trimEnd_trim: "trimEnd (trim a) = trim a"
  by (rule trimEnd_id) (rule trim_last)

lemma endsWithIgnoreCase_iff:
  "endsWithIgnoreCase pat t \<longleftrightarrow> (\<exists>pre m. t = pre @ m \<and> map toLowerAscii m = pat)"
proof
  assume "endsWithIgnoreCase pat t"
  then have "t = take (length t - length pat) t @ drop (length t - length pat) t
     \<and> map toLowerAscii (drop (length t - length pat) t) = pat"
    by (simp add: endsWithIgnoreCase_def)
  then show "\<exists>pre m. t = pre @ m \<and> map toLowerAscii m = pat" by blast
next
  assume "\<exists>pre m. t = pre @ m \<and> map toLowerAscii m = pat"
  then obtain pre m where t: "t = pre @ m" and m: "map toLowerAscii m = pat" by blast
  from m have "length pat = length m" by auto
  with t m show "endsWithIgnoreCase pat t" by (simp add: endsWithIgnoreCase_def)
qed

lemma animationRegex_trim:
  "animationRegex (trim a) \<longleftrightarrow>
     (\<exists>pre m. trim a = pre @ m
        \<and> (map toLowerAscii m = js ''animation:'' \<or> map toLowerAscii m = js ''animation-name:''))"
  unfolding animationRegex_def Let_def trimEnd_trim endsWithIgnoreCase_iff by blast

text \<open>
  Against claim C5 as stated: in the block \<open>M cls{color:M;}\<close> (\<open>M\<close> a marker,
  \<open>cls\<close> the class marker) the second \<open>M\<close> is in the declaration body, the text
  before it does not match the animation pattern, and yet the term added for it is the
  named slot \<open>expr0\<close> bound at the first \<open>M\<close>, not the inline node.
\<close>

theorem bound_marker_counterexample:
  "pos (foldl (ruleChar [''Link'']) initialScan
         (fromCharCode 231 # js '' '' @ CLASS_MARKER # js ''{color:'')) = ElementRule
   \<and> \<not> animationRegex (trim (accum (foldl (ruleChar [''Link'']) initialScan
         (fromCharCode 231 # js '' '' @ CLASS_MARKER # js ''{color:''))))
   \<and> addTerms (ruleScan [''Link''] initialScan
         (fromCharCode 231 # js '' '' @ CLASS_MARKER # js ''{color:'' @ fromCharCode 231 # js '';}''))
       = [StringLiteral (js ''.''), Identifier (ExprName 0), StringLiteral (js '' ''),
          Identifier ClsName, StringLiteral (js ''{color:''), Identifier (ExprName 0),
          StringLiteral (js '';}'')]"
  by (simp add: scan_defs char_defs)

text \<open>
  Claim C5, amended. For an expression marker in the declaration body that is not yet
  bound to a named slot: when the accumulated text, trimmed, ends with \<open>animation:\<close> or
  \<open>animation-name:\<close> in any mix of ASCII cases, a new slot is bound to it and the
  slot's identifier is added; otherwise the node of the expression is added inline and no
  slot is bound. A marker that is already bound adds its slot's identifier, whatever the
  text before it.
\<close>

theorem declaration_marker_promotion:
  assumes "c \<noteq> CLASS_MARKER" and "START_CODE \<le> charCodeAt0 c"
    and "stepPos (pos s) c = ElementRule"
  shows "(map_of (argsByCode s) c = None \<and> animationRegex (trim (accum s))
           \<longrightarrow> exprArgs (ruleChar eparts s c) = exprArgs s @ [ExprName (length (exprArgs s))]
             \<and> exprVals (ruleChar eparts s c) = exprVals s @ [exprFromChar eparts c]
             \<and> argsByCode (ruleChar eparts s c) = argsByCode s @ [(c, ExprName (length (exprArgs s)))]
             \<and> addTerms (ruleChar eparts s c)
                 = addTerms (addAccum s) @ [Identifier (ExprName (length (exprArgs s)))])
       \<and> (map_of (argsByCode s) c = None \<and> \<not> animationRegex (trim (accum s))
           \<longrightarrow> exprArgs (ruleChar eparts s c) = exprArgs s
             \<and> exprVals (ruleChar eparts s c) = exprVals s
             \<and> argsByCode (ruleChar eparts s c) = argsByCode s
             \<and> addTerms (ruleChar eparts s c) = addTerms (addAccum s) @ [nodeOf (exprFromChar eparts c)])
       \<and> (\<forall>arg. map_of (argsByCode s) c = Some arg
           \<longrightarrow> exprArgs (ruleChar eparts s c) = exprArgs s
             \<and> exprVals (ruleChar eparts s c) = exprVals s
             \<and> argsByCode (ruleChar eparts s c) = argsByCode s
             \<and> addTerms (ruleChar eparts s c) = addTerms (addAccum s) @ [Identifier arg])
       \<and> (animationRegex (trim (accum s)) \<longleftrightarrow>
            (\<exists>pre m. trim (accum s) = pre @ m
               \<and> (map toLowerAscii m = js ''animation:'' \<or> map toLowerAscii m = js ''animation-name:'')))"
proof -
  have e: "s\<lparr>accum := accum s @ (if stepPos (pos s) c = ElementSelector then [dot] else [])\<rparr> = s"
    using assms(3) by simp
  have p: "map_of (argsByCode s) c = None \<and> animationRegex (trim (accum s))
           \<longrightarrow> exprArgs (ruleChar eparts s c) = exprArgs s @ [ExprName (length (exprArgs s))]
             \<and> exprVals (ruleChar eparts s c) = exprVals s @ [exprFromChar eparts c]
             \<and> argsByCode (ruleChar eparts s c) = argsByCode s @ [(c, ExprName (length (exprArgs s)))]
             \<and> addTerms (ruleChar eparts s c)
                 = addTerms (addAccum s) @ [Identifier (ExprName (length (exprArgs s)))]"
    using ruleChar_promoted [OF assms(1,2), of s eparts] assms(3) e by simp
  have i: "map_of (argsByCode s) c = None \<and> \<not> animationRegex (trim (accum s))
           \<longrightarrow> exprArgs (ruleChar eparts s c) = exprArgs s
             \<and> exprVals (ruleChar eparts s c) = exprVals s
             \<and> argsByCode (ruleChar eparts s c) = argsByCode s
             \<and> addTerms (ruleChar eparts s c) = addTerms (addAccum s) @ [nodeOf (exprFromChar eparts c)]"
    using ruleChar_inline [OF assms(1,2), of s eparts] assms(3) by simp
  have b: "\<forall>arg. map_of (argsByCode s) c = Some arg
           \<longrightarrow> exprArgs (ruleChar eparts s c) = exprArgs s
             \<and> exprVals (ruleChar eparts s c) = exprVals s
             \<and> argsByCode (ruleChar eparts s c) = argsByCode s
             \<and> addTerms (ruleChar eparts s c) = addTerms (addAccum s) @ [Identifier arg]"
    using ruleChar_bound [OF assms(1,2), of s _ eparts] e by simp
  from p i b animationRegex_trim [of "accum s"] show ?thesis by blast
qed

theorem declaration_marker_promotion_witness:
  "fromCharCode 231 \<noteq> CLASS_MARKER \<and> START_CODE \<le> charCodeAt0 (fromCharCode 231)
   \<and> stepPos (pos \<lparr>exprArgs = [], exprVals = [], argsByCode = [], addTerms = [Identifier ClsName],
         accum = js ''{ANIMATION-name: '', pos = ElementRule\<rparr>) (fromCharCode 231) = ElementRule
   \<and> animationRegex (trim (js ''{ANIMATION-name: ''))
   \<and> ruleChar [''fade''] \<lparr>exprArgs = [], exprVals = [], argsByCode = [], addTerms = [Identifier ClsName],
         accum = js ''{ANIMATION-name: '', pos = ElementRule\<rparr> (fromCharCode 231)
       = \<lparr>exprArgs = [ExprName 0], exprVals = [Some ''fade''],
          argsByCode = [(fromCharCode 231, ExprName 0)],
          addTerms = [Identifier ClsName, StringLiteral (js ''{ANIMATION-name: ''), Identifier (ExprName 0)],
          accum = [], pos = ElementRule\<rparr>
   \<and> stepPos (pos \<lparr>exprArgs = [], exprVals = [], argsByCode = [], addTerms = [Identifier ClsName],
         accum = js ''{color: '', pos = ElementRule\<rparr>) (fromCharCode 231) = ElementRule
   \<and> \<not> animationRegex (trim (js ''{color: ''))
   \<and> addTerms (ruleChar [''colorVar''] \<lparr>exprArgs = [], exprVals = [], argsByCode = [],
         addTerms = [Identifier ClsName], accum = js ''{color: '', pos = ElementRule\<rparr> (fromCharCode 231))
       = [Identifier ClsName, StringLiteral (js ''{color: ''), UserNode ''colorVar'']"
proof -
  let ?a = "\<lparr>exprArgs = [], exprVals = [] :: string option list, argsByCode = [],
         addTerms = [Identifier ClsName], accum = js ''{ANIMATION-name: '', pos = ElementRule\<rparr>"
  let ?b = "\<lparr>exprArgs = [], exprVals = [] :: string option list, argsByCode = [],
         addTerms = [Identifier ClsName], accum = js ''{color: '', pos = ElementRule\<rparr>"
  have h1: "fromCharCode 231 \<noteq> CLASS_MARKER" by (simp add: char_defs)
  have h2: "START_CODE \<le> charCodeAt0 (fromCharCode 231)" by (simp add: char_defs)
  have h3: "stepPos (pos ?a) (fromCharCode 231) = ElementRule"
    by (simp add: stepPos_def char_defs)
  have h4: "stepPos (pos ?b) (fromCharCode 231) = ElementRule"
    by (simp add: stepPos_def char_defs)
  have g1: "animationRegex (trim (js ''{ANIMATION-name: ''))"
    by (simp add: scan_defs char_defs)
  have g2: "\<not> animationRegex (trim (js ''{color: ''))"
    by (simp add: scan_defs char_defs)
  have n1: "map_of (argsByCode ?a) (fromCharCode 231) = None" by simp
  have n2: "map_of (argsByCode ?b) (fromCharCode 231) = None" by simp
  from declaration_marker_promotion [OF h1 h2 h3, of "[''fade'']"] g1 n1
  have "exprArgs (ruleChar [''fade''] ?a (fromCharCode 231)) = exprArgs ?a @ [ExprName (length (exprArgs ?a))]
      \<and> exprVals (ruleChar [''fade''] ?a (fromCharCode 231)) = exprVals ?a @ [exprFromChar [''fade''] (fromCharCode 231)]
      \<and> argsByCode (ruleChar [''fade''] ?a (fromCharCode 231)) = argsByCode ?a @ [(fromCharCode 231, ExprName (length (exprArgs ?a)))]
      \<and> addTerms (ruleChar [''fade''] ?a (fromCharCode 231))
           = addTerms (addAccum ?a) @ [Identifier (ExprName (length (exprArgs ?a)))]"
    by simp
  moreover have "accum (ruleChar [''fade''] ?a (fromCharCode 231)) = []"
    "pos (ruleChar [''fade''] ?a (fromCharCode 231)) = ElementRule"
    by (simp_all add: scan_defs char_defs)
  ultimately have r1: "ruleChar [''fade''] ?a (fromCharCode 231)
       = \<lparr>exprArgs = [ExprName 0], exprVals = [Some ''fade''],
          argsByCode = [(fromCharCode 231, ExprName 0)],
          addTerms = [Identifier ClsName, StringLiteral (js ''{ANIMATION-name: ''), Identifier (ExprName 0)],
          accum = [], pos = ElementRule\<rparr>"
    by (simp add: scan.equality addAccum_fields exprFromChar_def char_defs)
  from declaration_marker_promotion [OF h1 h2 h4, of "[''colorVar'']"] g2 n2
  have "addTerms (ruleChar [''colorVar''] ?b (fromCharCode 231))
           = addTerms (addAccum ?b) @ [nodeOf (exprFromChar [''colorVar''] (fromCharCode 231))]"
    by simp
  then have r2: "addTerms (ruleChar [''colorVar''] ?b (fromCharCode 231))
       = [Identifier ClsName, StringLiteral (js ''{color: ''), UserNode ''colorVar'']"
    by (simp add: addAccum_fields exprFromChar_def nodeOf_def char_defs)
  from h1 h2 h3 h4 g1 g2 r1 r2 show ?thesis by simp
qed

section \<open>Round trip of the marker codec\<close>

lemma charCode_fromCharCode: "charCodeAt0 (fromCharCode n) = n mod 65536"
  by (simp add: charCodeAt0_def fromCharCode_def unat_of_nat)

lemma exprFromChar_marker:
  assumes "i < length eparts" "START_CODE + 1 + i < 65536"
  shows "exprFromChar eparts (fromCharCode (START_CODE + 1 + i)) = Some (eparts ! i)"
  using assms by (simp add: exprFromChar_def charCode_fromCharCode Let_def)

lemma encodeParts_length: "length (encodeParts n parts) = length parts"
  by (induction n parts rule: encodeParts.induct) simp_all

lemma exprParts_append: "exprParts (ps @ qs) = exprParts ps @ exprParts qs"
  by (induction ps rule: exprParts.induct) simp_all

lemma encodeParts_nth:
  "k < length parts \<Longrightarrow>
   encodeParts n parts ! k =
     (case parts ! k of Str s \<Rightarrow> s
      | Node e \<Rightarrow> [fromCharCode (n + length (exprParts (take k parts)))])"
proof (induction n parts arbitrary: k rule: encodeParts.induct)
  case (1 n)
  then show ?case by simp
next
  case (2 n s ps)
  then show ?case by (cases k) (simp_all split: part.splits)
next
  case (3 n e ps)
  then show ?case by (cases k) (simp_all split: part.splits)
qed

lemma traverseExtract_span:
  "isTemplateSpan sp \<Longrightarrow> traverseExtract sp ps = Inr (ps @ spanParts sp)"
proof (cases sp)
  case (TemplateSpan e lit)
  assume "isTemplateSpan sp"
  with TemplateSpan show ?thesis by (cases lit) simp_all
qed simp_all

lemma traverseExtractAll_spans:
  "list_all isTemplateSpan spans \<Longrightarrow>
   traverseExtractAll spans ps = Inr (ps @ concat (map spanParts spans))"
  by (induction spans arbitrary: ps) (simp_all add: traverseExtract_span)

lemma traverseExtract_template:
  assumes "isTemplateLiteral t" "traverseExtract t [] = Inr parts"
  shows "\<exists>l0 spans. list_all isTemplateSpan spans \<and> parts = Str l0 # concat (map spanParts spans)"
proof (cases t)
  case (NoSubstitutionTemplateLiteral s)
  with assms have "list_all isTemplateSpan [] \<and> parts = Str s # concat (map spanParts [])" by auto
  then show ?thesis by blast
next
  case (TemplateExpression h spans)
  with assms obtain s where h: "h = TemplateHead s" and sp: "list_all isTemplateSpan spans"
    by (cases h) simp_all
  with assms TemplateExpression have "parts = Str s # concat (map spanParts spans)"
    by (simp add: traverseExtractAll_spans)
  with sp show ?thesis by blast
qed (use assms in simp_all)

lemma spec_resplit_literal:
  "\<forall>c\<in>set l. charCodeAt0 c < START_CODE \<Longrightarrow>
   spec_resplit eparts lit (l @ cs) = spec_resplit eparts (lit @ l) cs"
  by (induction l arbitrary: lit) simp_all

lemma marker_is_marker:
  assumes "START_CODE + 1 + k < 65536"
  shows "fromCharCode (START_CODE + 1 + k) \<noteq> CLASS_MARKER
         \<and> START_CODE \<le> charCodeAt0 (fromCharCode (START_CODE + 1 + k))"
proof -
  have a: "charCodeAt0 (fromCharCode (START_CODE + 1 + k)) = START_CODE + 1 + k"
    using assms by (simp add: charCode_fromCharCode)
  have b: "charCodeAt0 CLASS_MARKER = START_CODE"
    by (simp add: CLASS_MARKER_def charCode_fromCharCode START_CODE_def)
  have "fromCharCode (START_CODE + 1 + k) \<noteq> CLASS_MARKER"
  proof
    assume "fromCharCode (START_CODE + 1 + k) = CLASS_MARKER"
    then have "charCodeAt0 (fromCharCode (START_CODE + 1 + k)) = charCodeAt0 CLASS_MARKER" by simp
    with a b show False by simp
  qed
  with a show ?thesis by simp
qed

lemma spec_resplit_spans:
  assumes "list_all isTemplateSpan spans"
    and "\<forall>s. Str s \<in> set (concat (map spanParts spans)) \<longrightarrow> (\<forall>c\<in>set s. charCodeAt0 c < START_CODE)"
    and "START_CODE + 1 + length es + length (exprParts (concat (map spanParts spans))) \<le> 65536"
  shows "spec_resplit (es @ exprParts (concat (map spanParts spans))) lit
           (concat (encodeParts (START_CODE + 1 + length es) (concat (map spanParts spans))))
         = Str lit # map (map_part Some) (concat (map spanParts spans))"
  using assms
proof (induction spans arbitrary: es lit)
  case Nil
  then show ?case by simp
next
  case (Cons sp spans)
  from Cons.prems(1) obtain e l where sp: "spanParts sp = [Node e, Str l]"
    and rest: "list_all isTemplateSpan spans"
  proof (cases sp)
    case (TemplateSpan e lit)
    with Cons.prems(1) that show ?thesis by (cases lit) simp_all
  qed simp_all
  let ?rest = "concat (map spanParts spans)"
  let ?eparts = "es @ e # exprParts ?rest"
  from Cons.prems(2) sp have l: "\<forall>c\<in>set l. charCodeAt0 c < START_CODE"
    and lr: "\<forall>s. Str s \<in> set ?rest \<longrightarrow> (\<forall>c\<in>set s. charCodeAt0 c < START_CODE)"
    by auto
  from Cons.prems(3) sp have b: "START_CODE + 1 + length es < 65536"
    and br: "START_CODE + 1 + length (es @ [e]) + length (exprParts ?rest) \<le> 65536"
    by simp_all
  have ih: "spec_resplit ((es @ [e]) @ exprParts ?rest) l
           (concat (encodeParts (START_CODE + 1 + length (es @ [e])) ?rest))
         = Str l # map (map_part Some) ?rest"
    by (rule Cons.IH [OF rest lr br])
  have d: "exprFromChar ?eparts (fromCharCode (START_CODE + 1 + length es)) = Some e"
    using exprFromChar_marker [of "length es" ?eparts] b by simp
  have "spec_resplit ?eparts lit
           (fromCharCode (START_CODE + 1 + length es) # l @ concat (encodeParts (START_CODE + 1 + length es + 1) ?rest))
        = Str lit # Node (Some e) # spec_resplit ?eparts []
             (l @ concat (encodeParts (START_CODE + 1 + length es + 1) ?rest))"
    using marker_is_marker [OF b] d by simp
  also have "spec_resplit ?eparts [] (l @ concat (encodeParts (START_CODE + 1 + length es + 1) ?rest))
        = spec_resplit ?eparts l (concat (encodeParts (START_CODE + 1 + length es + 1) ?rest))"
    using spec_resplit_literal [OF l, of ?eparts "[]"] by simp
  also have "\<dots> = Str l # map (map_part Some) ?rest"
    using ih by simp
  finally show ?case by (simp add: sp)
qed

lemma exprParts_replicate: "exprParts (replicate n (Node e)) = replicate n e"
  by (induction n) simp_all

text \<open>
  Against claim C2 as stated: with 65306 expressions the last marker is
  \<open>String.fromCharCode(65536)\<close>, the code unit 0, and \<open>exprFromChar\<close> of it is
  \<open>undefined\<close>, not the last expression.
\<close>

theorem marker_wraparound_counterexample:
  "encodeParts (START_CODE + 1) (replicate 65306 (Node ''x'')) ! 65305
     = [fromCharCode (START_CODE + 1 + 65305)]
   \<and> exprParts (replicate 65306 (Node ''x'')) ! 65305 = ''x''
   \<and> exprFromChar (exprParts (replicate 65306 (Node ''x''))) (fromCharCode (START_CODE + 1 + 65305))
     = None"
proof -
  have a: "encodeParts (START_CODE + 1) (replicate 65306 (Node ''x'')) ! 65305
     = [fromCharCode (START_CODE + 1 + 65305)]"
    using encodeParts_nth [of 65305 "replicate 65306 (Node ''x'')" "START_CODE + 1"]
    by (simp add: exprParts_replicate)
  have b: "exprParts (replicate 65306 (Node ''x'')) ! 65305 = ''x''"
    by (simp add: exprParts_replicate)
  have c: "exprFromChar (exprParts (replicate 65306 (Node ''x''))) (fromCharCode (START_CODE + 1 + 65305))
     = None"
    by (simp add: exprFromChar_def charCode_fromCharCode START_CODE_def)
  from a b c show ?thesis by blast
qed

text \<open>
  Claim C2, amended by the bound of 65305 expressions. The class marker has code 230; the
  strings joined into the flattened text are the literals as they are and, for the i-th
  expression (from 0), the one code unit 231 + i. For parts whose literals have no code
  unit of 230 or more and that hold at most 65305 expressions, \<open>exprFromChar\<close> of the
  i-th marker is the i-th expression; and when the parts are those extracted from a
  template literal (a literal, then expression and literal in turn), splitting the
  flattened text at the markers gives back the sequence of literals and expressions.
\<close>

theorem marker_round_trip:
  assumes "\<forall>s. Str s \<in> set parts \<longrightarrow> (\<forall>c\<in>set s. charCodeAt0 c < START_CODE)"
    and "length (exprParts parts) \<le> 65305"
  shows "charCodeAt0 CLASS_MARKER = 230
       \<and> length (encodeParts (START_CODE + 1) parts) = length parts
       \<and> (\<forall>k<length parts. encodeParts (START_CODE + 1) parts ! k =
            (case parts ! k of Str s \<Rightarrow> s
             | Node e \<Rightarrow> [fromCharCode (231 + length (exprParts (take k parts)))]))
       \<and> combined parts = concat (encodeParts (START_CODE + 1) parts)
       \<and> (\<forall>i<length (exprParts parts).
            charCodeAt0 (fromCharCode (231 + i)) = 231 + i
            \<and> exprFromChar (exprParts parts) (fromCharCode (231 + i)) = Some (exprParts parts ! i))
       \<and> (isTemplateLiteral t \<and> traverseExtract t [] = Inr parts
            \<longrightarrow> spec_resplit (exprParts parts) [] (combined parts) = map (map_part Some) parts)"
proof -
  have s: "START_CODE + 1 = 231" by (simp add: START_CODE_def)
  have a: "charCodeAt0 CLASS_MARKER = 230"
    by (simp add: CLASS_MARKER_def charCode_fromCharCode START_CODE_def)
  have b: "length (encodeParts (START_CODE + 1) parts) = length parts"
    by (rule encodeParts_length)
  have c: "\<forall>k<length parts. encodeParts (START_CODE + 1) parts ! k =
            (case parts ! k of Str s \<Rightarrow> s
             | Node e \<Rightarrow> [fromCharCode (231 + length (exprParts (take k parts)))])"
    using encodeParts_nth [of _ parts "START_CODE + 1"] unfolding s by blast
  have d: "combined parts = concat (encodeParts (START_CODE + 1) parts)"
    by (simp add: combined_def)
  have e: "\<forall>i<length (exprParts parts).
            charCodeAt0 (fromCharCode (231 + i)) = 231 + i
            \<and> exprFromChar (exprParts parts) (fromCharCode (231 + i)) = Some (exprParts parts ! i)"
  proof (intro allI impI)
    fix i assume i: "i < length (exprParts parts)"
    with assms(2) have l: "START_CODE + 1 + i < 65536" by (simp add: START_CODE_def)
    then have "charCodeAt0 (fromCharCode (START_CODE + 1 + i)) = START_CODE + 1 + i"
      by (simp add: charCode_fromCharCode)
    moreover have "exprFromChar (exprParts parts) (fromCharCode (START_CODE + 1 + i))
            = Some (exprParts parts ! i)"
      by (rule exprFromChar_marker [OF i l])
    ultimately show "charCodeAt0 (fromCharCode (231 + i)) = 231 + i
            \<and> exprFromChar (exprParts parts) (fromCharCode (231 + i)) = Some (exprParts parts ! i)"
      unfolding s by simp
  qed
  have f: "isTemplateLiteral t \<and> traverseExtract t [] = Inr parts
            \<longrightarrow> spec_resplit (exprParts parts) [] (combined parts) = map (map_part Some) parts"
  proof
    assume h: "isTemplateLiteral t \<and> traverseExtract t [] = Inr parts"
    then obtain l0 spans where
      sp: "list_all isTemplateSpan spans" and p: "parts = Str l0 # concat (map spanParts spans)"
      using traverseExtract_template [of t parts] by blast
    let ?rest = "concat (map spanParts spans)"
    from assms(1) p have l0: "\<forall>c\<in>set l0. charCodeAt0 c < START_CODE"
      and lr: "\<forall>s. Str s \<in> set ?rest \<longrightarrow> (\<forall>c\<in>set s. charCodeAt0 c < START_CODE)"
      by auto
    from assms(2) p
    have n: "START_CODE + 1 + length ([] :: 'a list) + length (exprParts ?rest) \<le> 65536"
      by (simp add: START_CODE_def)
    have "spec_resplit (exprParts parts) [] (combined parts)
          = spec_resplit (exprParts ?rest) [] (l0 @ concat (encodeParts (START_CODE + 1) ?rest))"
      by (simp add: p combined_def)
    also have "\<dots> = spec_resplit (exprParts ?rest) l0 (concat (encodeParts (START_CODE + 1) ?rest))"
      using spec_resplit_literal [OF l0, of "exprParts ?rest" "[]"] by simp
    also have "\<dots> = Str l0 # map (map_part Some) ?rest"
      using spec_resplit_spans [OF sp lr n, of l0] by simp
    finally show "spec_resplit (exprParts parts) [] (combined parts) = map (map_part Some) parts"
      by (simp add: p)
  qed
  from a b c d e f show ?thesis by blast
qed

theorem marker_round_trip_witness:
  "isTemplateLiteral (TemplateExpression (TemplateHead (js ''color: ''))
        [TemplateSpan ''colorVar'' (TemplateTail (js '';''))])
   \<and> traverseExtract (TemplateExpression (TemplateHead (js ''color: ''))
        [TemplateSpan ''colorVar'' (TemplateTail (js '';''))]) []
      = Inr [Str (js ''color: ''), Node ''colorVar'', Str (js '';'')]
   \<and> list_all (\<lambda>c. charCodeAt0 c < START_CODE) (js ''color: '' @ js '';'')
   \<and> length (exprParts [Str (js ''color: ''), Node ''colorVar'', Str (js '';'')]) \<le> 65305
   \<and> combined [Str (js ''color: ''), Node ''colorVar'', Str (js '';'')]
      = js ''color: '' @ fromCharCode 231 # js '';''
   \<and> exprFromChar [''colorVar''] (fromCharCode 231) = Some ''colorVar''
   \<and> spec_resplit [''colorVar''] [] (js ''color: '' @ fromCharCode 231 # js '';'')
      = [Str (js ''color: ''), Node (Some ''colorVar''), Str (js '';'')]"
proof -
  let ?t = "TemplateExpression (TemplateHead (js ''color: ''))
        [TemplateSpan ''colorVar'' (TemplateTail (js '';''))]"
  let ?parts = "[Str (js ''color: ''), Node ''colorVar'', Str (js '';'')]"
  have h1: "isTemplateLiteral ?t" by simp
  have h2: "traverseExtract ?t [] = Inr ?parts" by simp
  have h3: "\<forall>s. Str s \<in> set ?parts \<longrightarrow> (\<forall>c\<in>set s. charCodeAt0 c < START_CODE)"
    by (simp add: char_defs)
  have h4: "length (exprParts ?parts) \<le> 65305" by simp
  have c: "combined ?parts = js ''color: '' @ fromCharCode 231 # js '';''"
    by (simp add: combined_def START_CODE_def)
  note t = marker_round_trip [OF h3 h4, of ?t]
  from t have "\<forall>i<length (exprParts ?parts).
            charCodeAt0 (fromCharCode (231 + i)) = 231 + i
            \<and> exprFromChar (exprParts ?parts) (fromCharCode (231 + i)) = Some (exprParts ?parts ! i)"
    by blast
  then have "exprFromChar (exprParts ?parts) (fromCharCode (231 + 0)) = Some (exprParts ?parts ! 0)"
    by simp
  then have d: "exprFromChar [''colorVar''] (fromCharCode 231) = Some ''colorVar''"
    by simp
  from t h1 h2 have "spec_resplit (exprParts ?parts) [] (combined ?parts) = map (map_part Some) ?parts"
    by blast
  then have r: "spec_resplit [''colorVar''] [] (js ''color: '' @ fromCharCode 231 # js '';'')
      = [Str (js ''color: ''), Node (Some ''colorVar''), Str (js '';'')]"
    unfolding c by simp
  have h5: "list_all (\<lambda>c. charCodeAt0 c < START_CODE) (js ''color: '' @ js '';'')"
    by (simp add: char_defs)
  from h1 h2 h4 h5 c d r show ?thesis by blast
qed

end
